theory Spec2Isabelle
  imports Complex_Main
begin

section \<open>Blocks of columns and the primitives of the matrix library\<close>

text \<open>
  The solver \<^verbatim>\<open>factorizedCG\<close> (factorizedCG.hpp) works on dense blocks through the
  primitives of the matrix library: \<^verbatim>\<open>base::Gemm\<close>, \<^verbatim>\<open>base::Axpy\<close>,
  \<^verbatim>\<open>base::ColumnDot\<close>, \<^verbatim>\<open>base::ColumnNrm2\<close>, \<^verbatim>\<open>El::DiagonalScale\<close>,
  \<^verbatim>\<open>El::Zero\<close> and \<^verbatim>\<open>base::Copy\<close>.

  A block is the list of its columns and a scalar container the list of its entries.
  The element type \<^verbatim>\<open>value_type\<close> is modelled by \<open>real\<close>: arithmetic is exact, there
  is no rounding and no non-finite value. The one place where the two differ in kind is a
  division whose denominator is zero: the source executes it and goes on with an infinity
  or a NaN, which no real number describes. The model marks that point with the fault
  \<open>ZeroDenominator\<close> and follows the run no further. The integer remainder
  \<^verbatim>\<open>itn % params.res_print\<close> of the progress line has no defined result for a zero
  divisor; that is the fault \<open>ZeroModulus\<close>.

  The tolerance is different: it is a \<^verbatim>\<open>double\<close> that the caller supplies, and the caller
  may supply an infinity or a NaN. It is modelled by the type \<open>double\<close> below, with the
  comparisons and the product of IEEE 754 that the source applies to it.

  The log lines and the timers only observe the run and are left out; of the progress
  line (lines 156 to 162) the condition is kept, because it is evaluated in every pass.
\<close>

type_synonym vec = "real list"
type_synonym mat = "vec list"

datatype fault = ZeroDenominator | ZeroModulus

text \<open>\<^verbatim>\<open>base::Height\<close>, \<^verbatim>\<open>base::Width\<close>. A block without columns has no entries; its
  height is read as 0, which is only ever multiplied into blocks without entries.\<close>

definition Height :: "mat \<Rightarrow> nat" where
  "Height M = (case M of [] \<Rightarrow> 0 | c # _ \<Rightarrow> length c)"

definition Width :: "mat \<Rightarrow> nat" where
  "Width M = length M"

definition smul :: "real \<Rightarrow> vec \<Rightarrow> vec" where
  "smul a v = map ((*) a) v"

definition vadd :: "vec \<Rightarrow> vec \<Rightarrow> vec" where
  "vadd u v = map2 (+) u v"

definition dotp :: "vec \<Rightarrow> vec \<Rightarrow> real" where
  "dotp u v = sum_list (map2 (*) u v)"

text \<open>The product of a block (given by its columns) with a vector, of height \<open>h\<close>:
  the sum of the columns, each scaled by its entry of the vector.\<close>

fun mat_vec :: "nat \<Rightarrow> mat \<Rightarrow> vec \<Rightarrow> vec" where
  "mat_vec h (a # A) (x # xs) = vadd (smul x a) (mat_vec h A xs)"
| "mat_vec h _ _ = replicate h 0"

text \<open>The product of the transposed block with a vector: one dot product per column.\<close>

definition tmat_vec :: "mat \<Rightarrow> vec \<Rightarrow> vec" where
  "tmat_vec A v = map (\<lambda>a. dotp a v) A"

datatype orientation = NORMAL | TRANSPOSE

fun op_apply :: "orientation \<Rightarrow> nat \<Rightarrow> mat \<Rightarrow> vec \<Rightarrow> vec" where
  "op_apply NORMAL h A v = mat_vec h A v"
| "op_apply TRANSPOSE h A v = tmat_vec A v"

text \<open>\<^verbatim>\<open>base::Gemm(oA, El::NORMAL, a, A, B, b, C)\<close>: \<open>C := a \<cdot> op(A) \<cdot> B + b \<cdot> C\<close>, column by
  column. The second orientation is \<^verbatim>\<open>El::NORMAL\<close> at all five calls of the source and
  is not a parameter here.\<close>

definition Gemm :: "orientation \<Rightarrow> real \<Rightarrow> mat \<Rightarrow> mat \<Rightarrow> real \<Rightarrow> mat \<Rightarrow> mat" where
  "Gemm oA a A B b C =
     map2 (\<lambda>bj cj. vadd (smul a (op_apply oA (length cj) A bj)) (smul b cj)) B C"

text \<open>\<^verbatim>\<open>base::Axpy(a, X, Y)\<close> with one scalar: \<open>Y := a \<cdot> X + Y\<close>.\<close>

definition Axpy :: "real \<Rightarrow> mat \<Rightarrow> mat \<Rightarrow> mat" where
  "Axpy a X Y = map2 (\<lambda>x y. vadd (smul a x) y) X Y"

text \<open>\<^verbatim>\<open>base::Axpy(alpha, X, Y)\<close> with a scalar container: column \<open>i\<close> of \<open>Y\<close> becomes
  \<open>alpha[i] \<cdot> X\<^sub>i + Y\<^sub>i\<close>.\<close>

definition Axpy_cont :: "real list \<Rightarrow> mat \<Rightarrow> mat \<Rightarrow> mat" where
  "Axpy_cont as X Y = map (\<lambda>(a, x, y). vadd (smul a x) y) (zip as (zip X Y))"

text \<open>\<^verbatim>\<open>base::ColumnDot(A, B, out)\<close>: \<open>out[i] = A\<^sub>i\<^sup>T B\<^sub>i\<close>.\<close>

definition ColumnDot :: "mat \<Rightarrow> mat \<Rightarrow> real list" where
  "ColumnDot A B = map2 dotp A B"

text \<open>\<^verbatim>\<open>base::ColumnNrm2(B, out)\<close>: the Euclidean norm of every column.\<close>

definition ColumnNrm2 :: "mat \<Rightarrow> real list" where
  "ColumnNrm2 B = map (\<lambda>c. sqrt (dotp c c)) B"

text \<open>\<^verbatim>\<open>El::DiagonalScale(El::RIGHT, El::NORMAL, beta, P)\<close>: \<open>P := P \<cdot> diag(beta)\<close>, column
  \<open>i\<close> scaled by \<open>beta[i]\<close>.\<close>

definition DiagonalScale :: "real list \<Rightarrow> mat \<Rightarrow> mat" where
  "DiagonalScale bs P = map2 smul bs P"

definition El_Zero :: "real list \<Rightarrow> real list" where
  "El_Zero v = replicate (length v) 0"

definition Copy :: "mat \<Rightarrow> mat" where
  "Copy src = src"

text \<open>The loops \<^verbatim>\<open>for (i = 0; i < k; i++) out[i] = num[i] / den[i]\<close> of the source: no test
  of the denominator. The scalar containers of the source all have \<open>k\<close> entries.\<close>

fun column_divide :: "real list \<Rightarrow> real list \<Rightarrow> fault + real list" where
  "column_divide (x # xs) (y # ys) =
     (if y = 0 then Inl ZeroDenominator
      else case column_divide xs ys of
             Inl f \<Rightarrow> Inl f
           | Inr zs \<Rightarrow> Inr (x / y # zs))"
| "column_divide _ _ = Inr []"

text \<open>The remainder \<^verbatim>\<open>a % b\<close> of C++ on \<^verbatim>\<open>int\<close>: truncated, undefined for \<open>b = 0\<close>.\<close>

definition int_rem :: "int \<Rightarrow> int \<Rightarrow> fault + int" where
  "int_rem a b = (if b = 0 then Inl ZeroModulus else Inr (sgn a * (\<bar>a\<bar> mod \<bar>b\<bar>)))"

section \<open>Parameters, preconditioner and the solver's variables\<close>

text \<open>A \<^verbatim>\<open>double\<close> supplied by the caller: a number, an infinity or a NaN.\<close>

datatype double = Val real | PlusInf | MinusInf | NaN

text \<open>\<^verbatim>\<open>t < x\<close> and \<^verbatim>\<open>t >= x\<close> for a \<^verbatim>\<open>double\<close> \<open>t\<close> and a number \<open>x\<close>: every
  comparison with a NaN is false.\<close>

fun double_less :: "double \<Rightarrow> real \<Rightarrow> bool" where
  "double_less (Val t) x = (t < x)"
| "double_less MinusInf x = True"
| "double_less PlusInf x = False"
| "double_less NaN x = False"

fun double_ge :: "double \<Rightarrow> real \<Rightarrow> bool" where
  "double_ge (Val t) x = (t \<ge> x)"
| "double_ge PlusInf x = True"
| "double_ge MinusInf x = False"
| "double_ge NaN x = False"

text \<open>\<^verbatim>\<open>t * b\<close> for a \<^verbatim>\<open>double\<close> \<open>t\<close> and a number \<open>b\<close>: an infinity times zero is a NaN.\<close>

fun double_times :: "double \<Rightarrow> real \<Rightarrow> double" where
  "double_times (Val t) b = Val (t * b)"
| "double_times PlusInf b = (if 0 < b then PlusInf else if b < 0 then MinusInf else NaN)"
| "double_times MinusInf b = (if 0 < b then MinusInf else if b < 0 then PlusInf else NaN)"
| "double_times NaN b = NaN"

text \<open>\<^verbatim>\<open>x < t\<close> for a number \<open>x\<close> and a \<^verbatim>\<open>double\<close> \<open>t\<close>.\<close>

fun less_double :: "real \<Rightarrow> double \<Rightarrow> bool" where
  "less_double x (Val t) = (x < t)"
| "less_double x PlusInf = True"
| "less_double x MinusInf = False"
| "less_double x NaN = False"

record krylov_iter_params_t =
  tolerance :: double
  iter_lim :: int
  am_i_printing :: bool
  log_level :: int
  res_print :: int

text \<open>\<^verbatim>\<open>outplace_precond_t\<close>: \<^verbatim>\<open>is_id()\<close> and \<^verbatim>\<open>apply(B, X)\<close>, which writes the
  preconditioned block into its second argument.\<close>

record outplace_precond_t =
  is_id :: bool
  precond_apply :: "mat \<Rightarrow> mat"

definition outplace_id_precond_t :: outplace_precond_t where
  "outplace_id_precond_t = \<lparr>is_id = True, precond_apply = (\<lambda>B. B)\<rparr>"

text \<open>Every call of a primitive is recorded, in order, under the primitive's name and the
  variable it writes.\<close>

datatype prim =
  PGemm | PAxpy | PColumnNrm2 | PColumnDot | PCopy | PZero | PDiagonalScale
  | PApply | PAssign | PDivide

datatype var =
  V_B | V_hermIntermed | V_X | V_P | V_R | V_Q | V_Z
  | V_nrmb | V_ressqr | V_rho | V_rho0 | V_rhotmp | V_alpha | V_beta

text \<open>The variables of \<^verbatim>\<open>factorizedCG\<close>. \<open>ownZ\<close> is the block behind the reference
  \<^verbatim>\<open>Z\<close>: \<open>None\<close> when \<^verbatim>\<open>Z\<close> is bound to \<^verbatim>\<open>R\<close> itself, the separately allocated block
  otherwise.\<close>

record cg_state =
  blkX :: mat
  blkB :: mat
  hermIntermed :: mat
  blkP :: mat
  blkR :: mat
  blkQ :: mat
  ownZ :: "mat option"
  nrmb :: "real list"
  ressqr :: "real list"
  rho :: "real list"
  rho0 :: "real list"
  rhotmp :: "real list"
  alpha :: "real list"
  malpha :: "real list"
  beta :: "real list"
  calls :: "(prim \<times> var) list"

text \<open>What the loop reads and never writes: \<open>A\<close>, \<open>lambda\<close>, the sizes, the parameters
  (with the tolerance as corrected at entry), the preconditioner and the three flags.\<close>

record cg_env =
  matA :: mat
  lambda :: real
  dim_n :: nat
  dim_d :: nat
  dim_k :: nat
  params :: krylov_iter_params_t
  precM :: outplace_precond_t
  isprecond :: bool
  log_lev1 :: bool
  log_lev2 :: bool

definition trace_call :: "prim \<times> var \<Rightarrow> cg_state \<Rightarrow> cg_state" where
  "trace_call c s = s\<lparr>calls := calls s @ [c]\<rparr>"

definition Z_of :: "cg_state \<Rightarrow> mat" where
  "Z_of s = (case ownZ s of None \<Rightarrow> blkR s | Some z \<Rightarrow> z)"

definition write_Z :: "mat \<Rightarrow> cg_state \<Rightarrow> cg_state" where
  "write_Z z s = (case ownZ s of None \<Rightarrow> s\<lparr>blkR := z\<rparr> | Some _ \<Rightarrow> s\<lparr>ownZ := Some z\<rparr>)"

section \<open>Entry: lines 62 to 104\<close>

text \<open>Lines 74 to 77, with \<open>eps = 32 \<cdot> epsilon\<close>. A NaN fails both tests and is kept.\<close>

definition clamp_tolerance :: "real \<Rightarrow> double \<Rightarrow> double" where
  "clamp_tolerance eps t =
     (if double_less t eps then Val eps else if double_ge t 1 then Val (1 - eps) else t)"

text \<open>\<open>epsilon\<close> is \<^verbatim>\<open>std::numeric_limits<value_type>::epsilon()\<close> and \<open>sol_is_rhs\<close> is
  \<^verbatim>\<open>std::is_same<sol_type, rhs_type>::value\<close>; both are fixed by the template arguments.\<close>

definition cg_env_of ::
  "real \<Rightarrow> bool \<Rightarrow> mat \<Rightarrow> mat \<Rightarrow> real \<Rightarrow> krylov_iter_params_t \<Rightarrow> outplace_precond_t \<Rightarrow> cg_env"
where
  "cg_env_of epsilon sol_is_rhs A Y lam prm M =
     \<lparr>matA = A, lambda = lam,
      dim_n = Height A, dim_d = Width A, dim_k = Width Y,
      params = prm\<lparr>tolerance := clamp_tolerance (32 * epsilon) (tolerance prm)\<rparr>,
      precM = M,
      isprecond = (\<not> (is_id M \<and> sol_is_rhs)),
      log_lev1 = (am_i_printing prm \<and> log_level prm \<ge> 1),
      log_lev2 = (am_i_printing prm \<and> log_level prm \<ge> 2)\<rparr>"

text \<open>Lines 69 to 82: the blocks are created as copies, \<open>B = A\<^sup>T Y\<close> is formed.\<close>

definition cg_alloc :: "cg_env \<Rightarrow> mat \<Rightarrow> mat \<Rightarrow> cg_state" where
  "cg_alloc e Y X =
     (let B0 = Copy X;
          herm = Copy Y;
          B1 = Gemm TRANSPOSE 1 (matA e) Y 0 B0
      in \<lparr>blkX = X, blkB = B1, hermIntermed = herm,
          blkP = Copy X, blkR = Copy B1, blkQ = Copy B1,
          ownZ = (if \<not> isprecond e then None else Some (Copy X)),
          nrmb = [], ressqr = [], rho = [], rho0 = [], rhotmp = [],
          alpha = [], malpha = [], beta = [],
          calls = [(PGemm, V_B)]\<rparr>)"

text \<open>Lines 85 to 89: the initial residual.\<close>

definition cg_residual :: "cg_env \<Rightarrow> cg_state \<Rightarrow> cg_state" where
  "cg_residual e s0 =
     (let s1 = trace_call (PGemm, V_hermIntermed)
                 (s0\<lparr>hermIntermed := Gemm NORMAL 1 (matA e) (blkX s0) 0 (hermIntermed s0)\<rparr>);
          s2 = trace_call (PGemm, V_R)
                 (s1\<lparr>blkR := Gemm TRANSPOSE (- 1) (matA e) (hermIntermed s1) 1 (blkR s1)\<rparr>)
      in trace_call (PAxpy, V_R)
           (s2\<lparr>blkR := Axpy (- (lambda e * real (dim_n e))) (blkX s2) (blkR s2)\<rparr>))"

text \<open>Lines 93 to 104: the column norms of \<open>B\<close>, the scalar containers (copies of
  \<open>nrmb\<close>), the squared residual norms. The sum \<^verbatim>\<open>total_nrmb\<close> is only printed.\<close>

definition cg_scalars :: "cg_state \<Rightarrow> cg_state" where
  "cg_scalars s0 =
     (let s1 = trace_call (PColumnNrm2, V_nrmb) (s0\<lparr>nrmb := ColumnNrm2 (blkB s0)\<rparr>);
          s2 = s1\<lparr>ressqr := nrmb s1, rho := nrmb s1, rho0 := nrmb s1, rhotmp := nrmb s1,
                  alpha := nrmb s1, malpha := nrmb s1, beta := nrmb s1\<rparr>
      in trace_call (PColumnDot, V_ressqr) (s2\<lparr>ressqr := ColumnDot (blkR s2) (blkR s2)\<rparr>))"

definition cg_setup :: "cg_env \<Rightarrow> mat \<Rightarrow> mat \<Rightarrow> cg_state" where
  "cg_setup e Y X = cg_scalars (cg_residual e (cg_alloc e Y X))"

section \<open>One pass of the loop: lines 107 to 169\<close>

text \<open>Lines 107 to 116.\<close>

definition precondition :: "cg_env \<Rightarrow> cg_state \<Rightarrow> cg_state" where
  "precondition e s0 =
     (if isprecond e then
        (let s1 = trace_call (PApply, V_Z) (write_Z (precond_apply (precM e) (blkR s0)) s0)
         in trace_call (PColumnDot, V_rho) (s1\<lparr>rho := ColumnDot (blkR s1) (Z_of s1)\<rparr>))
      else
        (let s1 = trace_call (PCopy, V_Z) (write_Z (Copy (blkR s0)) s0)
         in trace_call (PAssign, V_rho) (s1\<lparr>rho := ressqr s1\<rparr>)))"

text \<open>Lines 118 to 122.\<close>

definition momentum :: "nat \<Rightarrow> cg_state \<Rightarrow> fault + cg_state" where
  "momentum itn s =
     (if itn = 0 then Inr (trace_call (PZero, V_beta) (s\<lparr>beta := El_Zero (beta s)\<rparr>))
      else case column_divide (rho s) (rho0 s) of
             Inl f \<Rightarrow> Inl f
           | Inr b \<Rightarrow> Inr (trace_call (PDivide, V_beta) (s\<lparr>beta := b\<rparr>)))"

text \<open>Lines 124 and 125.\<close>

definition direction :: "cg_state \<Rightarrow> cg_state" where
  "direction s0 =
     (let s1 = trace_call (PDiagonalScale, V_P) (s0\<lparr>blkP := DiagonalScale (beta s0) (blkP s0)\<rparr>)
      in trace_call (PAxpy, V_P) (s1\<lparr>blkP := Axpy 1 (Z_of s1) (blkP s1)\<rparr>))"

text \<open>Lines 129 to 133.\<close>

definition apply_operator :: "cg_env \<Rightarrow> cg_state \<Rightarrow> cg_state" where
  "apply_operator e s0 =
     (let s1 = trace_call (PGemm, V_hermIntermed)
                 (s0\<lparr>hermIntermed := Gemm NORMAL 1 (matA e) (blkP s0) 0 (hermIntermed s0)\<rparr>);
          s2 = trace_call (PGemm, V_Q)
                 (s1\<lparr>blkQ := Gemm TRANSPOSE 1 (matA e) (hermIntermed s1) 0 (blkQ s1)\<rparr>)
      in trace_call (PAxpy, V_Q)
           (s2\<lparr>blkQ := Axpy (lambda e * real (dim_n e)) (blkP s2) (blkQ s2)\<rparr>))"

text \<open>Lines 137 to 141.\<close>

definition step_size :: "cg_state \<Rightarrow> fault + cg_state" where
  "step_size s0 =
     (let s1 = trace_call (PColumnDot, V_rhotmp) (s0\<lparr>rhotmp := ColumnDot (blkP s0) (blkQ s0)\<rparr>)
      in case column_divide (rho s1) (rhotmp s1) of
           Inl f \<Rightarrow> Inl f
         | Inr a \<Rightarrow> Inr (trace_call (PDivide, V_alpha) (s1\<lparr>alpha := a, malpha := map uminus a\<rparr>)))"

text \<open>Lines 143 to 148.\<close>

definition update :: "cg_state \<Rightarrow> cg_state" where
  "update s0 =
     (let s1 = trace_call (PAxpy, V_X) (s0\<lparr>blkX := Axpy_cont (alpha s0) (blkP s0) (blkX s0)\<rparr>);
          s2 = trace_call (PAxpy, V_R) (s1\<lparr>blkR := Axpy_cont (malpha s1) (blkQ s1) (blkR s1)\<rparr>);
          s3 = trace_call (PAssign, V_rho0) (s2\<lparr>rho0 := rho s2\<rparr>)
      in trace_call (PColumnDot, V_ressqr) (s3\<lparr>ressqr := ColumnDot (blkR s3) (blkR s3)\<rparr>))"

text \<open>Lines 150 to 154: the number of columns that pass the test
  \<^verbatim>\<open>sqrt(ressqr[i]) < (params.tolerance*nrmb[i])\<close>.\<close>

definition converged_columns :: "cg_env \<Rightarrow> cg_state \<Rightarrow> nat" where
  "converged_columns e s =
     length (filter (\<lambda>(r, b). less_double (sqrt r) (double_times (tolerance (params e)) b))
               (zip (ressqr s) (nrmb s)))"

text \<open>Line 156: the condition \<^verbatim>\<open>log_lev2 && (itn % params.res_print == 0 || convg == k)\<close>
  of the progress line, remainder first. The line itself, with its quotient
  \<^verbatim>\<open>relres\<close>, is only printed.\<close>

definition progress_line :: "cg_env \<Rightarrow> nat \<Rightarrow> nat \<Rightarrow> fault + bool" where
  "progress_line e itn convg =
     (if log_lev2 e then
        (case int_rem (int itn) (res_print (params e)) of
           Inl f \<Rightarrow> Inl f
         | Inr r \<Rightarrow> Inr (r = 0 \<or> convg = dim_k e))
      else Inr False)"

text \<open>The body of the loop; the flag says whether \<^verbatim>\<open>convg == k\<close>.\<close>

definition cg_iteration :: "cg_env \<Rightarrow> nat \<Rightarrow> cg_state \<Rightarrow> fault + (bool \<times> cg_state)" where
  "cg_iteration e itn s =
     (case momentum itn (precondition e s) of
        Inl f \<Rightarrow> Inl f
      | Inr s1 \<Rightarrow>
        (case step_size (apply_operator e (direction s1)) of
           Inl f \<Rightarrow> Inl f
         | Inr s2 \<Rightarrow>
           (let s3 = update s2;
                convg = converged_columns e s3
            in case progress_line e itn convg of
                 Inl f \<Rightarrow> Inl f
               | Inr _ \<Rightarrow> Inr (convg = dim_k e, s3))))"

section \<open>The loop and the solver\<close>

text \<open>Line 106 and lines 164 to 172: \<open>- 1\<close> on convergence, \<open>- 6\<close> when the limit is
  reached.\<close>

function cg_loop :: "cg_env \<Rightarrow> nat \<Rightarrow> cg_state \<Rightarrow> fault + (int \<times> cg_state)" where
  "cg_loop e itn s =
     (if int itn < iter_lim (params e) then
        (case cg_iteration e itn s of
           Inl f \<Rightarrow> Inl f
         | Inr (conv, s') \<Rightarrow> if conv then Inr (- 1, s') else cg_loop e (Suc itn) s')
      else Inr (- 6, s))"
  by pat_completeness auto
termination
  by (relation "measure (\<lambda>(e, itn, s). nat (iter_lim (params e)) - itn)") auto

definition factorizedCG ::
  "real \<Rightarrow> bool \<Rightarrow> mat \<Rightarrow> mat \<Rightarrow> mat \<Rightarrow> real \<Rightarrow> krylov_iter_params_t \<Rightarrow> outplace_precond_t
     \<Rightarrow> fault + (int \<times> cg_state)"
where
  "factorizedCG epsilon sol_is_rhs A Y X lam prm M =
     (let e = cg_env_of epsilon sol_is_rhs A Y lam prm M
      in cg_loop e 0 (cg_setup e Y X))"

section \<open>The vocabulary of the specification\<close>

text \<open>Matrix algebra as the specification writes it, on blocks given by their columns:
  the transpose, the product, sum and difference, the diagonal matrix of a scalar
  container, and the operator \<open>A\<^sup>T A + \<lambda> n \<cdot> I\<close> as a matrix.\<close>

definition has_shape :: "nat \<Rightarrow> nat \<Rightarrow> mat \<Rightarrow> bool" where
  "has_shape h w M \<longleftrightarrow> length M = w \<and> list_all (\<lambda>c. length c = h) M"

definition transpose_mat :: "nat \<Rightarrow> mat \<Rightarrow> mat" where
  "transpose_mat h M = map (\<lambda>r. map (\<lambda>c. c ! r) M) [0..<h]"

definition mat_mul :: "nat \<Rightarrow> mat \<Rightarrow> mat \<Rightarrow> mat" where
  "mat_mul h M V = map (mat_vec h M) V"

definition mat_add :: "mat \<Rightarrow> mat \<Rightarrow> mat" where
  "mat_add M N = map2 (map2 (+)) M N"

definition mat_sub :: "mat \<Rightarrow> mat \<Rightarrow> mat" where
  "mat_sub M N = map2 (map2 (-)) M N"

definition diag :: "real list \<Rightarrow> mat" where
  "diag v = map (\<lambda>j. map (\<lambda>i. if i = j then v ! j else 0) [0..<length v]) [0..<length v]"

definition identity_mat :: "nat \<Rightarrow> mat" where
  "identity_mat d = diag (replicate d 1)"

definition zero_mat :: "nat \<Rightarrow> nat \<Rightarrow> mat" where
  "zero_mat h w = replicate w (replicate h 0)"

definition normal_matrix :: "mat \<Rightarrow> real \<Rightarrow> mat" where
  "normal_matrix A lam =
     mat_add (mat_mul (Width A) (transpose_mat (Height A) A) A)
             (diag (replicate (Width A) (lam * real (Height A))))"

definition euclid_norm :: "vec \<Rightarrow> real" where
  "euclid_norm c = sqrt (\<Sum>x\<leftarrow>c. x\<^sup>2)"

text \<open>The sizes the source takes for granted: \<open>A\<close> is \<open>n \<times> d\<close>, \<open>Y\<close> is \<open>n \<times> k\<close> and
  \<open>X\<close> is \<open>d \<times> k\<close>.\<close>

definition inputs_ok :: "mat \<Rightarrow> mat \<Rightarrow> mat \<Rightarrow> bool" where
  "inputs_ok A Y X \<longleftrightarrow>
     has_shape (Height A) (Width A) A \<and> has_shape (Height A) (Width Y) Y
     \<and> has_shape (Width A) (Width Y) X"

text \<open>The sizes of the solver's variables, and which block \<^verbatim>\<open>Z\<close> refers to.\<close>

definition state_ok :: "cg_env \<Rightarrow> cg_state \<Rightarrow> bool" where
  "state_ok e s \<longleftrightarrow>
     dim_n e = Height (matA e) \<and> dim_d e = Width (matA e)
     \<and> has_shape (dim_n e) (dim_d e) (matA e)
     \<and> has_shape (dim_d e) (dim_k e) (blkX s)
     \<and> has_shape (dim_d e) (dim_k e) (blkB s)
     \<and> has_shape (dim_n e) (dim_k e) (hermIntermed s)
     \<and> has_shape (dim_d e) (dim_k e) (blkP s)
     \<and> has_shape (dim_d e) (dim_k e) (blkR s)
     \<and> has_shape (dim_d e) (dim_k e) (blkQ s)
     \<and> (case ownZ s of None \<Rightarrow> \<not> isprecond e
         | Some z \<Rightarrow> isprecond e \<and> has_shape (dim_d e) (dim_k e) z)
     \<and> length (nrmb s) = dim_k e \<and> length (ressqr s) = dim_k e
     \<and> length (rho s) = dim_k e \<and> length (rho0 s) = dim_k e
     \<and> length (rhotmp s) = dim_k e \<and> length (alpha s) = dim_k e
     \<and> length (malpha s) = dim_k e \<and> length (beta s) = dim_k e"

text \<open>A preconditioner returns a block of the size of the residual.\<close>

definition precond_ok :: "cg_env \<Rightarrow> bool" where
  "precond_ok e \<longleftrightarrow>
     (\<forall>R. has_shape (dim_d e) (dim_k e) R
          \<longrightarrow> has_shape (dim_d e) (dim_k e) (precond_apply (precM e) R))"

text \<open>Step 1 of a pass as the specification has it: with a preconditioner
  \<open>Z = M.apply(R)\<close> and \<open>rho[i] = R\<^sub>i\<^sup>T Z\<^sub>i\<close>, without one \<open>Z = R\<close> and
  \<open>rho = ressqr\<close>.\<close>

definition pass_Z :: "cg_env \<Rightarrow> cg_state \<Rightarrow> mat" where
  "pass_Z e s = (if isprecond e then precond_apply (precM e) (blkR s) else blkR s)"

definition pass_rho :: "cg_env \<Rightarrow> cg_state \<Rightarrow> real list" where
  "pass_rho e s = (if isprecond e then ColumnDot (blkR s) (pass_Z e s) else ressqr s)"

text \<open>The calls of the entry, of one pass of the loop, and of \<open>m\<close> passes from pass
  \<open>itn\<close> on, in the order of the source.\<close>

definition setup_calls :: "(prim \<times> var) list" where
  "setup_calls =
     [(PGemm, V_B), (PGemm, V_hermIntermed), (PGemm, V_R), (PAxpy, V_R),
      (PColumnNrm2, V_nrmb), (PColumnDot, V_ressqr)]"

definition iteration_calls :: "bool \<Rightarrow> bool \<Rightarrow> (prim \<times> var) list" where
  "iteration_calls precond first =
     (if precond then [(PApply, V_Z), (PColumnDot, V_rho)]
      else [(PCopy, V_Z), (PAssign, V_rho)])
     @ [if first then (PZero, V_beta) else (PDivide, V_beta)]
     @ [(PDiagonalScale, V_P), (PAxpy, V_P),
        (PGemm, V_hermIntermed), (PGemm, V_Q), (PAxpy, V_Q),
        (PColumnDot, V_rhotmp), (PDivide, V_alpha),
        (PAxpy, V_X), (PAxpy, V_R), (PAssign, V_rho0), (PColumnDot, V_ressqr)]"

fun loop_calls :: "bool \<Rightarrow> nat \<Rightarrow> nat \<Rightarrow> (prim \<times> var) list" where
  "loop_calls precond itn 0 = []"
| "loop_calls precond itn (Suc m) =
     iteration_calls precond (itn = 0) @ loop_calls precond (Suc itn) m"

text \<open>A pass of the loop computes \<^verbatim>\<open>rhotmp\<close> once, and every application of the operator
  \<open>A\<^sup>T A + \<lambda> n \<cdot> I\<close> starts with the product \<open>A \<cdot> V\<close> into \<^verbatim>\<open>hermIntermed\<close>.\<close>

definition iterations_done :: "cg_state \<Rightarrow> nat" where
  "iterations_done s = count_list (calls s) (PColumnDot, V_rhotmp)"

definition operator_applications :: "cg_state \<Rightarrow> nat" where
  "operator_applications s = count_list (calls s) (PGemm, V_hermIntermed)"

section \<open>Linear algebra on blocks\<close>

subsection \<open>Vectors\<close>

lemma length_smul [simp]: "length (smul a v) = length v" by (simp add: smul_def)
lemma length_vadd [simp]: "length (vadd u v) = min (length u) (length v)" by (simp add: vadd_def)
lemma nth_smul [simp]: "i < length v \<Longrightarrow> smul a v ! i = a * v ! i" by (simp add: smul_def)
lemma nth_vadd [simp]: "i < length u \<Longrightarrow> i < length v \<Longrightarrow> vadd u v ! i = u ! i + v ! i"
  by (simp add: vadd_def)
lemma length_tmat_vec [simp]: "length (tmat_vec A v) = length A" by (simp add: tmat_vec_def)
lemma nth_tmat_vec [simp]: "i < length A \<Longrightarrow> tmat_vec A v ! i = dotp (A ! i) v"
  by (simp add: tmat_vec_def)

lemma has_shape_nth: "has_shape h w M \<longleftrightarrow> length M = w \<and> (\<forall>j<w. length (M ! j) = h)"
  by (auto simp: has_shape_def list_all_length)

lemma has_shape_set: "has_shape h w M \<Longrightarrow> c \<in> set M \<Longrightarrow> length c = h"
  by (auto simp: has_shape_def list_all_iff)

lemma has_shape_length: "has_shape h w M \<Longrightarrow> length M = w"
  by (simp add: has_shape_def)

lemma has_shape_col: "has_shape h w M \<Longrightarrow> j < w \<Longrightarrow> length (M ! j) = h"
  by (simp add: has_shape_nth)

lemma length_mat_vec: "\<forall>a\<in>set A. length a = h \<Longrightarrow> length (mat_vec h A x) = h"
  by (induction h A x rule: mat_vec.induct) auto

lemma mat_vec_nth:
  "\<forall>a\<in>set A. length a = h \<Longrightarrow> i < h \<Longrightarrow>
   mat_vec h A x ! i = (\<Sum>l<min (length A) (length x). x ! l * A ! l ! i)"
proof (induction h A x rule: mat_vec.induct)
  case (1 h a A x xs)
  then show ?case
    by (simp del: sum.lessThan_Suc add: sum.lessThan_Suc_shift length_mat_vec)
qed auto

lemma dotp_sum: "length u = length v \<Longrightarrow> dotp u v = (\<Sum>i<length u. u ! i * v ! i)"
proof (induction u v rule: list_induct2)
  case Nil then show ?case by (simp add: dotp_def)
next
  case (Cons x xs y ys)
  then show ?case by (simp del: sum.lessThan_Suc add: dotp_def sum.lessThan_Suc_shift)
qed

lemma dotp_commute: "dotp u v = dotp v u"
proof -
  have "map2 (*) u v = map2 (*) v u"
    by (induction u arbitrary: v) (auto simp: mult.commute split: list.splits, case_tac v, auto)
  then show ?thesis by (simp add: dotp_def)
qed

lemma dotp_self_nonneg: "0 \<le> dotp c c"
proof -
  have "\<forall>x\<in>set (map2 (*) c c). 0 \<le> x"
    by (auto simp: zip_same)
  then show ?thesis unfolding dotp_def by (intro sum_list_nonneg) auto
qed

lemma dotp_self_sq: "dotp c c = (\<Sum>x\<leftarrow>c. x\<^sup>2)"
  by (induction c) (auto simp: dotp_def power2_eq_square)

lemma dotp_self_zero_iff: "dotp c c = 0 \<longleftrightarrow> (\<forall>x\<in>set c. x = 0)"
proof (induction c)
  case Nil show ?case by (simp add: dotp_def)
next
  case (Cons a c)
  have nn: "0 \<le> dotp c c" by (rule dotp_self_nonneg)
  have "dotp (a # c) (a # c) = a * a + dotp c c" by (simp add: dotp_def)
  moreover have "a * a + dotp c c = 0 \<longleftrightarrow> a = 0 \<and> dotp c c = 0"
    using nn by (smt (verit) mult_eq_0_iff zero_le_square)
  ultimately show ?case using Cons by auto
qed

subsection \<open>Products\<close>

lemma length_diag [simp]: "length (diag v) = length v" by (simp add: diag_def)

lemma diag_nth:
  "j < length v \<Longrightarrow> i < length v \<Longrightarrow> diag v ! j ! i = (if i = j then v ! j else 0)"
  by (simp add: diag_def)

lemma length_diag_col [simp]: "j < length v \<Longrightarrow> length (diag v ! j) = length v"
  by (simp add: diag_def)

lemma diag_cols: "\<forall>a\<in>set (diag v). length a = length v"
  by (auto simp: diag_def)

lemma transpose_mat_vec:
  assumes A: "has_shape n d A" and y: "length y = n"
  shows "mat_vec d (transpose_mat n A) y = tmat_vec A y"
proof (rule nth_equalityI)
  have T: "\<forall>a\<in>set (transpose_mat n A). length a = d"
    using A by (auto simp: transpose_mat_def has_shape_def)
  show "length (mat_vec d (transpose_mat n A) y) = length (tmat_vec A y)"
    using T A by (simp add: length_mat_vec has_shape_def)
  fix i assume "i < length (mat_vec d (transpose_mat n A) y)"
  then have i: "i < d" using T by (simp add: length_mat_vec)
  then have iA: "i < length A" "length (A ! i) = n" using A by (simp_all add: has_shape_nth)
  have "mat_vec d (transpose_mat n A) y ! i = (\<Sum>l<n. y ! l * A ! i ! l)"
    using T i iA y by (simp add: mat_vec_nth transpose_mat_def)
  also have "\<dots> = dotp (A ! i) y"
    using iA y by (simp add: dotp_sum mult.commute)
  finally show "mat_vec d (transpose_mat n A) y ! i = tmat_vec A y ! i"
    using iA by simp
qed

lemma normal_op_vec:
  assumes A: "\<forall>a\<in>set A. length a = n" and p: "length p = length A"
  shows "vadd (smul c p) (tmat_vec A (mat_vec n A p))
       = mat_vec (length A) (map (\<lambda>j. map (\<lambda>i. dotp (A ! i) (A ! j) + (if i = j then c else 0))
                [0..<length A]) [0..<length A]) p"
    (is "?L = mat_vec ?d ?N p")
proof (rule nth_equalityI)
  have N: "\<forall>a\<in>set ?N. length a = ?d" by auto
  show "length ?L = length (mat_vec ?d ?N p)" using N p by (simp add: length_mat_vec)
  fix i assume "i < length ?L"
  then have i: "i < ?d" using p by simp
  have Ai: "length (A ! i) = n" using A i by simp
  have "?L ! i = c * p ! i + dotp (A ! i) (mat_vec n A p)"
    using i p by simp
  also have "dotp (A ! i) (mat_vec n A p) = (\<Sum>r<n. A ! i ! r * (\<Sum>l<?d. p ! l * A ! l ! r))"
    using A Ai p by (simp add: dotp_sum mat_vec_nth length_mat_vec)
  also have "\<dots> = (\<Sum>r<n. \<Sum>l<?d. p ! l * (A ! i ! r * A ! l ! r))"
    by (simp add: sum_distrib_left mult_ac)
  also have "\<dots> = (\<Sum>l<?d. \<Sum>r<n. p ! l * (A ! i ! r * A ! l ! r))"
    by (rule sum.swap)
  also have "\<dots> = (\<Sum>l<?d. p ! l * (\<Sum>r<n. A ! i ! r * A ! l ! r))"
    by (simp add: sum_distrib_left)
  also have "c * p ! i + \<dots> = (\<Sum>l<?d. p ! l * ((\<Sum>r<n. A ! i ! r * A ! l ! r) + (if i = l then c else 0)))"
  proof -
    have "(\<Sum>l<?d. p ! l * (if i = l then c else 0)) = (\<Sum>l<?d. if l = i then c * p ! l else 0)"
      by (intro sum.cong refl) simp
    also have "\<dots> = c * p ! i" using i by simp
    finally show ?thesis by (simp add: distrib_left sum.distrib)
  qed
  also have "\<dots> = (\<Sum>l<?d. p ! l * ?N ! l ! i)"
    using i A by (intro sum.cong refl) (simp add: dotp_sum)
  also have "\<dots> = mat_vec ?d ?N p ! i"
    using N i p by (simp add: mat_vec_nth)
  finally show "?L ! i = mat_vec ?d ?N p ! i" .
qed

lemma normal_matrix_entries:
  assumes A: "has_shape (Height A) (Width A) A"
  shows "normal_matrix A lam =
         map (\<lambda>j. map (\<lambda>i. dotp (A ! i) (A ! j) + (if i = j then lam * real (Height A) else 0))
                [0..<length A]) [0..<length A]"
proof -
  let ?n = "Height A" and ?d = "Width A"
  have d: "?d = length A" by (simp add: Width_def)
  have col: "mat_vec ?d (transpose_mat ?n A) (A ! j) = map (\<lambda>i. dotp (A ! i) (A ! j)) [0..<?d]"
    if "j < ?d" for j
  proof -
    have "length (A ! j) = ?n" using A that by (simp add: has_shape_nth)
    then have "mat_vec ?d (transpose_mat ?n A) (A ! j) = tmat_vec A (A ! j)"
      by (rule transpose_mat_vec[OF A])
    also have "\<dots> = map (\<lambda>i. dotp (A ! i) (A ! j)) [0..<?d]"
      unfolding d tmat_vec_def by (rule nth_equalityI) simp_all
    finally show ?thesis .
  qed
  have m2: "map2 h (map f xs) (map g xs) = map (\<lambda>x. h (f x) (g x)) xs"
    for h :: "'b \<Rightarrow> 'c \<Rightarrow> 'e" and f g and xs :: "'f list"
    by (induction xs) auto
  have P: "mat_mul ?d (transpose_mat ?n A) A = map (\<lambda>j. map (\<lambda>i. dotp (A ! i) (A ! j)) [0..<?d]) [0..<?d]"
    unfolding mat_mul_def
  proof (rule nth_equalityI)
    show "length (map (mat_vec ?d (transpose_mat ?n A)) A)
        = length (map (\<lambda>j. map (\<lambda>i. dotp (A ! i) (A ! j)) [0..<?d]) [0..<?d])"
      by (simp add: d)
    fix j assume "j < length (map (mat_vec ?d (transpose_mat ?n A)) A)"
    then have j: "j < ?d" by (simp add: d)
    then show "map (mat_vec ?d (transpose_mat ?n A)) A ! j
        = map (\<lambda>j. map (\<lambda>i. dotp (A ! i) (A ! j)) [0..<?d]) [0..<?d] ! j"
      using col[OF j] by (simp add: d)
  qed
  have D: "diag (replicate ?d c) = map (\<lambda>j. map (\<lambda>i. if i = j then c else 0) [0..<?d]) [0..<?d]"
    for c :: real
    by (simp add: diag_def cong: map_cong)
  show ?thesis
    unfolding normal_matrix_def P D mat_add_def by (simp add: m2 d)
qed

lemma normal_matrix_vec:
  assumes A: "has_shape (Height A) (Width A) A" and p: "length p = Width A"
  shows "mat_vec (Width A) (normal_matrix A lam) p
       = vadd (smul (lam * real (Height A)) p) (tmat_vec A (mat_vec (Height A) A p))"
proof -
  have "\<forall>a\<in>set A. length a = Height A" using A by (auto simp: has_shape_set)
  from normal_op_vec[OF this, of p "lam * real (Height A)"] p show ?thesis
    by (simp add: normal_matrix_entries[OF A] Width_def)
qed

lemma mat_mul_diag:
  assumes M: "has_shape h w M" and v: "length v = w"
  shows "mat_mul h M (diag v) = map2 smul v M"
proof (rule nth_equalityI)
  show "length (mat_mul h M (diag v)) = length (map2 smul v M)"
    using M v by (simp add: mat_mul_def diag_def has_shape_def)
  fix j assume "j < length (mat_mul h M (diag v))"
  then have j: "j < w" using v by (simp add: mat_mul_def diag_def)
  have Ms: "\<forall>a\<in>set M. length a = h" using M by (auto simp: has_shape_set)
  have lM: "length M = w" using M by (simp add: has_shape_def)
  have "mat_vec h M (diag v ! j) = smul (v ! j) (M ! j)"
  proof (rule nth_equalityI)
    show "length (mat_vec h M (diag v ! j)) = length (smul (v ! j) (M ! j))"
      using Ms M j by (simp add: length_mat_vec has_shape_nth)
    fix i assume "i < length (mat_vec h M (diag v ! j))"
    then have i: "i < h" using Ms by (simp add: length_mat_vec)
    have "mat_vec h M (diag v ! j) ! i = (\<Sum>l<w. diag v ! j ! l * M ! l ! i)"
      using Ms i j v lM by (simp add: mat_vec_nth)
    also have "\<dots> = (\<Sum>l<w. (if l = j then v ! j * M ! l ! i else 0))"
      using j v by (intro sum.cong refl) (simp add: diag_nth)
    also have "\<dots> = v ! j * M ! j ! i" using j by simp
    finally show "mat_vec h M (diag v ! j) ! i = smul (v ! j) (M ! j) ! i"
      using M j i by (simp add: has_shape_nth)
  qed
  then show "mat_mul h M (diag v) ! j = map2 smul v M ! j"
    using j v lM by (simp add: mat_mul_def)
qed

lemma identity_mat_vec:
  assumes x: "length x = d"
  shows "mat_vec d (identity_mat d) x = x"
proof (rule nth_equalityI)
  have I: "\<forall>a\<in>set (identity_mat d). length a = d"
    by (auto simp: identity_mat_def diag_def)
  show "length (mat_vec d (identity_mat d) x) = length x" using I x by (simp add: length_mat_vec)
  fix i assume "i < length (mat_vec d (identity_mat d) x)"
  then have i: "i < d" using I by (simp add: length_mat_vec)
  have "mat_vec d (identity_mat d) x ! i = (\<Sum>l<d. x ! l * identity_mat d ! l ! i)"
    using I i x by (simp add: mat_vec_nth identity_mat_def)
  also have "\<dots> = (\<Sum>l<d. (if l = i then x ! l else 0))"
    using i by (intro sum.cong refl) (simp add: identity_mat_def diag_nth)
  also have "\<dots> = x ! i" using i by simp
  finally show "mat_vec d (identity_mat d) x ! i = x ! i" .
qed

lemma identity_tmat_vec:
  assumes x: "length x = d"
  shows "tmat_vec (identity_mat d) x = x"
proof (rule nth_equalityI)
  show "length (tmat_vec (identity_mat d) x) = length x"
    using x by (simp add: identity_mat_def diag_def)
  fix i assume "i < length (tmat_vec (identity_mat d) x)"
  then have i: "i < d" by (simp add: identity_mat_def diag_def)
  have "dotp (identity_mat d ! i) x = (\<Sum>l<d. identity_mat d ! i ! l * x ! l)"
    using i x by (simp add: dotp_sum identity_mat_def)
  also have "\<dots> = (\<Sum>l<d. (if l = i then x ! l else 0))"
    using i by (intro sum.cong refl) (simp add: identity_mat_def diag_nth)
  also have "\<dots> = x ! i" using i by simp
  finally show "tmat_vec (identity_mat d) x ! i = x ! i"
    using i by (simp add: identity_mat_def diag_def)
qed


subsection \<open>The primitives on blocks of the right sizes\<close>

lemma vadd_smul_1_0: "length u = length c \<Longrightarrow> vadd (smul 1 u) (smul 0 c) = u"
  by (rule nth_equalityI) simp_all

lemma vadd_commute: "vadd u v = vadd v u"
  unfolding vadd_def by (induction u arbitrary: v) (auto split: list.splits, case_tac v, auto)

lemma vadd_smul_1: "vadd (smul 1 z) p = map2 (+) p z"
  unfolding vadd_def smul_def
  by (induction z arbitrary: p) (auto, case_tac p, auto)

lemma vadd_smul_plus: "vadd (smul a p) x = map2 (+) x (smul a p)"
  unfolding vadd_def smul_def
  by (induction p arbitrary: x) (auto, case_tac x, auto)

lemma vadd_smul_minus: "vadd (smul (- a) q) r = map2 (-) r (smul a q)"
  unfolding vadd_def smul_def
  by (induction q arbitrary: r) (auto, case_tac r, auto)

lemma vadd_smul_m1_1: "vadd (smul (- 1) t) (smul 1 b) = map2 (-) b t"
  unfolding vadd_def smul_def
  by (induction t arbitrary: b) (auto, case_tac b, auto)

lemma Gemm_NORMAL_1_0:
  assumes "has_shape n d A" "has_shape n k C" "length V = k"
  shows "Gemm NORMAL 1 A V 0 C = map (mat_vec n A) V"
proof (rule nth_equalityI)
  show "length (Gemm NORMAL 1 A V 0 C) = length (map (mat_vec n A) V)"
    using assms by (simp add: Gemm_def has_shape_def)
  fix j assume "j < length (Gemm NORMAL 1 A V 0 C)"
  then have j: "j < k" using assms by (simp add: Gemm_def has_shape_def)
  have "\<forall>a\<in>set A. length a = n" using assms(1) by (auto simp: has_shape_set)
  then show "Gemm NORMAL 1 A V 0 C ! j = map (mat_vec n A) V ! j"
    using j assms by (simp add: Gemm_def has_shape_nth vadd_smul_1_0 length_mat_vec)
qed

lemma Gemm_TRANSPOSE_1_0:
  assumes "length A = d" "has_shape d k C" "length H = k"
  shows "Gemm TRANSPOSE 1 A H 0 C = map (tmat_vec A) H"
proof (rule nth_equalityI)
  show "length (Gemm TRANSPOSE 1 A H 0 C) = length (map (tmat_vec A) H)"
    using assms by (simp add: Gemm_def has_shape_def)
  fix j assume "j < length (Gemm TRANSPOSE 1 A H 0 C)"
  then have j: "j < k" using assms by (simp add: Gemm_def has_shape_def)
  then show "Gemm TRANSPOSE 1 A H 0 C ! j = map (tmat_vec A) H ! j"
    using assms by (simp add: Gemm_def has_shape_nth vadd_smul_1_0)
qed

lemma Gemm_TRANSPOSE_m1_1:
  "Gemm TRANSPOSE (- 1) A H 1 C = map2 (\<lambda>h c. map2 (-) c (tmat_vec A h)) H C"
  by (simp add: Gemm_def vadd_smul_m1_1)

lemma has_shape_Gemm_NORMAL:
  assumes "has_shape n d A" "has_shape n k C" "length V = k"
  shows "has_shape n k (Gemm NORMAL a A V b C)"
proof -
  have "\<forall>a\<in>set A. length a = n" using assms(1) by (auto simp: has_shape_set)
  then show ?thesis
    using assms by (simp add: has_shape_nth Gemm_def length_mat_vec)
qed

lemma has_shape_Gemm_TRANSPOSE:
  assumes "length A = d" "has_shape d k C" "length H = k"
  shows "has_shape d k (Gemm TRANSPOSE a A H b C)"
  using assms by (simp add: has_shape_nth Gemm_def)

lemma has_shape_Axpy:
  "has_shape h w X \<Longrightarrow> has_shape h w Y \<Longrightarrow> has_shape h w (Axpy a X Y)"
  by (simp add: has_shape_nth Axpy_def)

lemma has_shape_Axpy_cont:
  "length as = w \<Longrightarrow> has_shape h w X \<Longrightarrow> has_shape h w Y \<Longrightarrow> has_shape h w (Axpy_cont as X Y)"
  by (simp add: has_shape_nth Axpy_cont_def)

lemma has_shape_DiagonalScale:
  "length bs = w \<Longrightarrow> has_shape h w P \<Longrightarrow> has_shape h w (DiagonalScale bs P)"
  by (simp add: has_shape_nth DiagonalScale_def)

lemma length_ColumnDot: "length (ColumnDot A B) = min (length A) (length B)"
  by (simp add: ColumnDot_def)

lemma length_ColumnNrm2: "length (ColumnNrm2 B) = length B"
  by (simp add: ColumnNrm2_def)

lemma Axpy_1_mat_add: "Axpy 1 Z P = mat_add P Z"
proof -
  have "map2 f Z P = map2 (\<lambda>p z. f z p) P Z" for f :: "vec \<Rightarrow> vec \<Rightarrow> vec"
    by (induction Z arbitrary: P) (auto, case_tac P, auto)
  then show ?thesis by (simp add: Axpy_def mat_add_def vadd_smul_1)
qed

lemma Axpy_cont_plus: "Axpy_cont as P X = mat_add X (map2 smul as P)"
proof (induction as arbitrary: P X)
  case Nil show ?case by (simp add: Axpy_cont_def mat_add_def)
next
  case (Cons a as)
  show ?case
  proof (cases P)
    case Nil then show ?thesis by (simp add: Axpy_cont_def mat_add_def)
  next
    case P: (Cons p P')
    show ?thesis
    proof (cases X)
      case Nil then show ?thesis by (simp add: Axpy_cont_def mat_add_def)
    next
      case (Cons x X')
      then show ?thesis using Cons.IH[of P' X'] P
        by (simp add: Axpy_cont_def mat_add_def vadd_smul_plus)
    qed
  qed
qed

lemma Axpy_cont_minus: "Axpy_cont (map uminus as) Q R = mat_sub R (map2 smul as Q)"
proof (induction as arbitrary: Q R)
  case Nil show ?case by (simp add: Axpy_cont_def mat_sub_def)
next
  case (Cons a as)
  show ?case
  proof (cases Q)
    case Nil then show ?thesis by (simp add: Axpy_cont_def mat_sub_def)
  next
    case Q: (Cons q Q')
    show ?thesis
    proof (cases R)
      case Nil then show ?thesis by (simp add: Axpy_cont_def mat_sub_def)
    next
      case (Cons r R')
      then show ?thesis using Cons.IH[of Q' R'] Q
        by (simp add: Axpy_cont_def mat_sub_def vadd_smul_minus)
    qed
  qed
qed

text \<open>The three calls that apply the operator compute the product with the matrix
  \<open>A\<^sup>T A + \<lambda> n \<cdot> I\<close>.\<close>

lemma operator_calls:
  assumes A: "has_shape (Height A) (Width A) A"
    and V: "has_shape (Width A) k V"
    and H: "has_shape (Height A) k H"
    and Q: "has_shape (Width A) k Q"
  shows "Axpy (lam * real (Height A)) V
           (Gemm TRANSPOSE 1 A (Gemm NORMAL 1 A V 0 H) 0 Q)
       = mat_mul (Width A) (normal_matrix A lam) V"
proof -
  have lV: "length V = k" using V by (simp add: has_shape_def)
  have G1: "Gemm NORMAL 1 A V 0 H = map (mat_vec (Height A) A) V"
    using A H lV by (rule Gemm_NORMAL_1_0)
  have G2: "Gemm TRANSPOSE 1 A (map (mat_vec (Height A) A) V) 0 Q
          = map (tmat_vec A) (map (mat_vec (Height A) A) V)"
    using Q lV by (intro Gemm_TRANSPOSE_1_0[where d = "Width A"]) (simp_all add: Width_def)
  show ?thesis
    unfolding G1 G2 Axpy_def mat_mul_def
  proof (rule nth_equalityI)
    show "length (map2 (\<lambda>x. vadd (smul (lam * real (Height A)) x)) V
            (map (tmat_vec A) (map (mat_vec (Height A) A) V)))
        = length (map (mat_vec (Width A) (normal_matrix A lam)) V)"
      by simp
    fix j assume "j < length (map2 (\<lambda>x. vadd (smul (lam * real (Height A)) x)) V
            (map (tmat_vec A) (map (mat_vec (Height A) A) V)))"
    then have j: "j < length V" by simp
    then have "length (V ! j) = Width A" using V lV by (simp add: has_shape_nth)
    from normal_matrix_vec[OF A this, of lam] j
    show "map2 (\<lambda>x. vadd (smul (lam * real (Height A)) x)) V
            (map (tmat_vec A) (map (mat_vec (Height A) A) V)) ! j
        = map (mat_vec (Width A) (normal_matrix A lam)) V ! j"
      by simp
  qed
qed

text \<open>The three calls of the entry that form the residual.\<close>

lemma residual_calls:
  assumes A: "has_shape (Height A) (Width A) A"
    and X: "has_shape (Width A) k X"
    and H: "has_shape (Height A) k H"
    and B: "has_shape (Width A) k B"
  shows "Axpy (- (lam * real (Height A))) X
           (Gemm TRANSPOSE (- 1) A (Gemm NORMAL 1 A X 0 H) 1 B)
       = mat_sub B (mat_mul (Width A) (normal_matrix A lam) X)"
proof -
  have lX: "length X = k" using X by (simp add: has_shape_def)
  have lB: "length B = k" using B by (simp add: has_shape_def)
  have G1: "Gemm NORMAL 1 A X 0 H = map (mat_vec (Height A) A) X"
    using A H lX by (rule Gemm_NORMAL_1_0)
  show ?thesis
    unfolding G1 Gemm_TRANSPOSE_m1_1 Axpy_def mat_mul_def mat_sub_def
  proof (rule nth_equalityI)
    show "length (map2 (\<lambda>x. vadd (smul (- (lam * real (Height A))) x)) X
            (map2 (\<lambda>h c. map2 (-) c (tmat_vec A h)) (map (mat_vec (Height A) A) X) B))
        = length (map2 (map2 (-)) B (map (mat_vec (Width A) (normal_matrix A lam)) X))"
      using lX lB by simp
    fix j assume "j < length (map2 (\<lambda>x. vadd (smul (- (lam * real (Height A))) x)) X
            (map2 (\<lambda>h c. map2 (-) c (tmat_vec A h)) (map (mat_vec (Height A) A) X) B))"
    then have j: "j < k" using lX lB by simp
    have xj: "length (X ! j) = Width A" using X j by (simp add: has_shape_nth)
    have bj: "length (B ! j) = Width A" using B j by (simp add: has_shape_nth)
    let ?t = "tmat_vec A (mat_vec (Height A) A (X ! j))"
    have lt: "length ?t = Width A" by (simp add: Width_def)
    have "vadd (smul (- (lam * real (Height A))) (X ! j)) (map2 (-) (B ! j) ?t)
        = map2 (-) (B ! j) (vadd (smul (lam * real (Height A)) (X ! j)) ?t)"
      using xj bj lt by (intro nth_equalityI) (simp_all add: algebra_simps)
    then show "map2 (\<lambda>x. vadd (smul (- (lam * real (Height A))) x)) X
            (map2 (\<lambda>h c. map2 (-) c (tmat_vec A h)) (map (mat_vec (Height A) A) X) B) ! j
        = map2 (map2 (-)) B (map (mat_vec (Width A) (normal_matrix A lam)) X) ! j"
      using j lX lB normal_matrix_vec[OF A xj, of lam] by simp
  qed
qed

lemma transpose_product:
  assumes A: "has_shape (Height A) (Width A) A"
    and Y: "has_shape (Height A) k Y"
    and X: "has_shape (Width A) k X"
  shows "Gemm TRANSPOSE 1 A Y 0 X = mat_mul (Width A) (transpose_mat (Height A) A) Y"
proof -
  have "Gemm TRANSPOSE 1 A Y 0 X = map (tmat_vec A) Y"
    using X Y by (intro Gemm_TRANSPOSE_1_0[where d = "Width A"]) (simp_all add: Width_def has_shape_def)
  also have "\<dots> = map (mat_vec (Width A) (transpose_mat (Height A) A)) Y"
    using Y by (intro map_cong refl) (simp add: transpose_mat_vec[OF A] has_shape_set)
  finally show ?thesis by (simp add: mat_mul_def)
qed


subsection \<open>The blocks of one pass\<close>

lemma column_divide_Inr:
  "column_divide xs ys = Inr zs \<Longrightarrow>
     length zs = min (length xs) (length ys)
     \<and> (\<forall>i<length zs. ys ! i \<noteq> 0 \<and> zs ! i = xs ! i / ys ! i)"
proof (induction xs ys arbitrary: zs rule: column_divide.induct)
  case (1 x xs y ys)
  from "1.prems" obtain zs' where y: "y \<noteq> 0" and r: "column_divide xs ys = Inr zs'"
    and zs: "zs = x / y # zs'"
    by (auto split: if_splits sum.splits)
  from "1.IH"[OF y r] have IH: "length zs' = min (length xs) (length ys)"
    "\<forall>i<length zs'. ys ! i \<noteq> 0 \<and> zs' ! i = xs ! i / ys ! i" by auto
  show ?case unfolding zs using IH y by (auto simp: nth_Cons split: nat.splits)
qed auto

lemma column_divide_Inl:
  "column_divide xs ys = Inl f \<Longrightarrow> f = ZeroDenominator \<and> (\<exists>i<min (length xs) (length ys). ys ! i = 0)"
proof (induction xs ys rule: column_divide.induct)
  case (1 x xs y ys)
  show ?case
  proof (cases "y = 0")
    case True with "1.prems" show ?thesis by auto
  next
    case False
    with "1.prems" have "column_divide xs ys = Inl f" by (auto split: sum.splits)
    from "1.IH"[OF False this] obtain i where "f = ZeroDenominator" "i < min (length xs) (length ys)" "ys ! i = 0"
      by auto
    then show ?thesis by (intro conjI exI[of _ "Suc i"]) auto
  qed
qed auto

lemma column_divide_total:
  "\<forall>y\<in>set ys. y \<noteq> 0 \<Longrightarrow> \<exists>zs. column_divide xs ys = Inr zs"
  by (induction xs ys rule: column_divide.induct) auto

lemma cg_iteration_Inr:
  assumes "cg_iteration e itn s = Inr (c, s')"
  obtains s1 s2 where "momentum itn (precondition e s) = Inr s1"
    and "step_size (apply_operator e (direction s1)) = Inr s2"
    and "s' = update s2"
    and "c = (converged_columns e s' = dim_k e)"
    and "progress_line e itn (converged_columns e s') \<noteq> Inl ZeroModulus"
  using assms unfolding cg_iteration_def Let_def
  by (auto split: sum.splits)

lemma cg_iteration_fields:
  assumes run: "cg_iteration e itn s = Inr (c, s')"
    and Z: "isprecond e \<longleftrightarrow> ownZ s \<noteq> None"
  shows "rho s' = pass_rho e s"
    and "itn = 0 \<Longrightarrow> beta s' = El_Zero (beta s)"
    and "itn \<noteq> 0 \<Longrightarrow> column_divide (pass_rho e s) (rho0 s) = Inr (beta s')"
    and "blkP s' = Axpy 1 (pass_Z e s) (DiagonalScale (beta s') (blkP s))"
    and "hermIntermed s' = Gemm NORMAL 1 (matA e) (blkP s') 0 (hermIntermed s)"
    and "blkQ s' = Axpy (lambda e * real (dim_n e)) (blkP s')
                     (Gemm TRANSPOSE 1 (matA e) (hermIntermed s') 0 (blkQ s))"
    and "rhotmp s' = ColumnDot (blkP s') (blkQ s')"
    and "column_divide (pass_rho e s) (rhotmp s') = Inr (alpha s')"
    and "malpha s' = map uminus (alpha s')"
    and "blkX s' = Axpy_cont (alpha s') (blkP s') (blkX s)"
    and "blkR s' = Axpy_cont (malpha s') (blkQ s') (blkR s)"
    and "rho0 s' = pass_rho e s"
    and "ressqr s' = ColumnDot (blkR s') (blkR s')"
    and "nrmb s' = nrmb s"
    and "blkB s' = blkB s"
    and "ownZ s' = (if isprecond e then Some (pass_Z e s) else None)"
    and "calls s' = calls s @ iteration_calls (isprecond e) (itn = 0)"
    and "c = (converged_columns e s' = dim_k e)"
proof -
  from run obtain s1 s2 where m: "momentum itn (precondition e s) = Inr s1"
    and st: "step_size (apply_operator e (direction s1)) = Inr s2"
    and s': "s' = update s2" and c: "c = (converged_columns e s' = dim_k e)"
    by (rule cg_iteration_Inr)
  let ?s0 = "precondition e s"
  obtain b ev where s1: "s1 = ?s0\<lparr>beta := b, calls := calls ?s0 @ [ev]\<rparr>"
    and b: "if itn = 0 then b = El_Zero (beta ?s0) \<and> ev = (PZero, V_beta)
            else column_divide (rho ?s0) (rho0 ?s0) = Inr b \<and> ev = (PDivide, V_beta)"
    using m unfolding momentum_def trace_call_def
    by (auto split: if_splits sum.splits)
  let ?s3 = "apply_operator e (direction s1)"
  obtain a where a: "column_divide (rho ?s3) (ColumnDot (blkP ?s3) (blkQ ?s3)) = Inr a"
    and s2: "s2 = ?s3\<lparr>rhotmp := ColumnDot (blkP ?s3) (blkQ ?s3), alpha := a,
                 malpha := map uminus a,
                 calls := calls ?s3 @ [(PColumnDot, V_rhotmp), (PDivide, V_alpha)]\<rparr>"
    using st unfolding step_size_def trace_call_def Let_def
    by (auto split: sum.splits)
  note defs = precondition_def direction_def apply_operator_def update_def trace_call_def
    write_Z_def Z_of_def Let_def Copy_def iteration_calls_def pass_Z_def pass_rho_def
  show "rho s' = pass_rho e s" unfolding s' s2 s1 using Z by (auto simp: defs)
  show "beta s' = El_Zero (beta s)" if "itn = 0"
    unfolding s' s2 s1 using Z b that by (auto simp: defs)
  show "column_divide (pass_rho e s) (rho0 s) = Inr (beta s')" if "itn \<noteq> 0"
    unfolding s' s2 s1 using Z b that by (auto simp: defs)
  show "blkP s' = Axpy 1 (pass_Z e s) (DiagonalScale (beta s') (blkP s))"
    unfolding s' s2 s1 using Z by (auto simp: defs)
  show "hermIntermed s' = Gemm NORMAL 1 (matA e) (blkP s') 0 (hermIntermed s)"
    unfolding s' s2 s1 using Z by (auto simp: defs)
  show "blkQ s' = Axpy (lambda e * real (dim_n e)) (blkP s')
                     (Gemm TRANSPOSE 1 (matA e) (hermIntermed s') 0 (blkQ s))"
    unfolding s' s2 s1 using Z by (auto simp: defs)
  show "rhotmp s' = ColumnDot (blkP s') (blkQ s')"
    unfolding s' s2 s1 using Z by (auto simp: defs)
  show "column_divide (pass_rho e s) (rhotmp s') = Inr (alpha s')"
    using a unfolding s' s2 s1 using Z by (auto simp: defs)
  show "malpha s' = map uminus (alpha s')"
    unfolding s' s2 s1 using Z by (auto simp: defs)
  show "blkX s' = Axpy_cont (alpha s') (blkP s') (blkX s)"
    unfolding s' s2 s1 using Z by (auto simp: defs)
  show "blkR s' = Axpy_cont (malpha s') (blkQ s') (blkR s)"
    unfolding s' s2 s1 using Z by (auto simp: defs)
  show "rho0 s' = pass_rho e s" unfolding s' s2 s1 using Z by (auto simp: defs)
  show "ressqr s' = ColumnDot (blkR s') (blkR s')"
    unfolding s' s2 s1 using Z by (auto simp: defs)
  show "nrmb s' = nrmb s" unfolding s' s2 s1 by (auto simp: defs split: option.splits)
  show "blkB s' = blkB s" unfolding s' s2 s1 by (auto simp: defs split: option.splits)
  show "ownZ s' = (if isprecond e then Some (pass_Z e s) else None)"
    unfolding s' s2 s1 using Z by (auto simp: defs)
  show "calls s' = calls s @ iteration_calls (isprecond e) (itn = 0)"
    unfolding s' s2 s1 using Z b by (auto simp: defs)
  show "c = (converged_columns e s' = dim_k e)" by (rule c)
qed


lemma cg_iteration_state_ok:
  assumes run: "cg_iteration e itn s = Inr (c, s')"
    and ok: "state_ok e s" and M: "precond_ok e"
  shows "state_ok e s'"
proof -
  let ?d = "dim_d e" and ?k = "dim_k e" and ?n = "dim_n e"
  have Z: "isprecond e \<longleftrightarrow> ownZ s \<noteq> None"
    using ok by (auto simp: state_ok_def split: option.splits)
  note f = cg_iteration_fields[OF run Z]
  let ?Z = "pass_Z e s" and ?r = "pass_rho e s"
  have A: "has_shape ?n ?d (matA e)" and lA: "length (matA e) = ?d"
    and X: "has_shape ?d ?k (blkX s)" and B: "has_shape ?d ?k (blkB s)"
    and H: "has_shape ?n ?k (hermIntermed s)" and P: "has_shape ?d ?k (blkP s)"
    and R: "has_shape ?d ?k (blkR s)" and Q: "has_shape ?d ?k (blkQ s)"
    and len: "length (nrmb s) = ?k" "length (ressqr s) = ?k" "length (rho0 s) = ?k"
      "length (beta s) = ?k"
    using ok by (auto simp: state_ok_def Width_def)
  have Zs: "has_shape ?d ?k ?Z"
    using R M by (simp add: pass_Z_def precond_ok_def)
  have lr: "length ?r = ?k"
    using R Zs len by (simp add: pass_rho_def length_ColumnDot has_shape_def)
  have lb: "length (beta s') = ?k"
  proof (cases "itn = 0")
    case True with f(2) len show ?thesis by (simp add: El_Zero_def)
  next
    case False
    from column_divide_Inr[OF f(3)[OF False]] lr len show ?thesis by simp
  qed
  have P': "has_shape ?d ?k (blkP s')"
    unfolding f(4) using Zs P lb
    by (intro has_shape_Axpy has_shape_DiagonalScale)
  have H': "has_shape ?n ?k (hermIntermed s')"
    unfolding f(5) using A H P' by (intro has_shape_Gemm_NORMAL) (simp_all add: has_shape_def)
  have Q': "has_shape ?d ?k (blkQ s')"
    unfolding f(6) using lA Q H' P'
    by (intro has_shape_Axpy has_shape_Gemm_TRANSPOSE) (simp_all add: has_shape_def)
  have lt: "length (rhotmp s') = ?k"
    unfolding f(7) using P' Q' by (simp add: length_ColumnDot has_shape_def)
  from column_divide_Inr[OF f(8)] lr lt have la: "length (alpha s') = ?k" by simp
  have lma: "length (malpha s') = ?k" using la f(9) by simp
  have X': "has_shape ?d ?k (blkX s')"
    unfolding f(10) using la P' X by (intro has_shape_Axpy_cont)
  have R': "has_shape ?d ?k (blkR s')"
    unfolding f(11) using lma Q' R by (intro has_shape_Axpy_cont)
  have lq: "length (ressqr s') = ?k"
    unfolding f(13) using R' by (simp add: length_ColumnDot has_shape_def)
  have oz: "(case ownZ s' of None \<Rightarrow> \<not> isprecond e
         | Some z \<Rightarrow> isprecond e \<and> has_shape ?d ?k z)"
    using f(16) Zs by simp
  have lrho: "length (rho s') = ?k" "length (rho0 s') = ?k"
    using f(1) f(12) lr by simp_all
  have env: "dim_n e = Height (matA e)" "dim_d e = Width (matA e)"
    using ok by (auto simp: state_ok_def)
  have B': "has_shape ?d ?k (blkB s')" using B f(15) by simp
  have ln: "length (nrmb s') = ?k" using len f(14) by simp
  show ?thesis
    unfolding state_ok_def
    by (intro conjI env A X' B' H' P' R' Q' oz ln lq lrho lt la lma lb)
qed

lemma cg_loop_invariant_aux:
  "cg_loop e itn s = Inr (ret, s') \<Longrightarrow> I s \<Longrightarrow>
   \<forall>j t c t'. I t \<longrightarrow> cg_iteration e j t = Inr (c, t') \<longrightarrow> I t' \<Longrightarrow> I s'"
proof (induction e itn s rule: cg_loop.induct)
  case (1 e itn s)
  show ?case
  proof (cases "int itn < iter_lim (params e)")
    case False
    with "1.prems" show ?thesis by (simp add: cg_loop.simps[of e itn s])
  next
    case True
    with "1.prems"(1) obtain c t where it: "cg_iteration e itn s = Inr (c, t)"
      by (auto simp: cg_loop.simps[of e itn s] split: sum.splits)
    have It: "I t" using "1.prems"(2,3) it by blast
    show ?thesis
    proof (cases c)
      case True
      with it \<open>int itn < iter_lim (params e)\<close> "1.prems"(1) have "s' = t"
        by (simp add: cg_loop.simps[of e itn s])
      with It show ?thesis by simp
    next
      case False
      with it \<open>int itn < iter_lim (params e)\<close> "1.prems"(1)
      have "cg_loop e (Suc itn) t = Inr (ret, s')"
        by (simp add: cg_loop.simps[of e itn s])
      from "1.IH"[OF \<open>int itn < iter_lim (params e)\<close> it refl False this It "1.prems"(3)]
      show ?thesis .
    qed
  qed
qed

lemma cg_loop_invariant:
  assumes "cg_loop e itn s = Inr (ret, s')" and "I s"
    and "\<And>j t c t'. I t \<Longrightarrow> cg_iteration e j t = Inr (c, t') \<Longrightarrow> I t'"
  shows "I s'"
  using cg_loop_invariant_aux[OF assms(1), of I] assms(2,3) by blast


subsection \<open>The entry\<close>

lemma cg_env_of_fields:
  "matA (cg_env_of eps b A Y lam prm M) = A"
  "lambda (cg_env_of eps b A Y lam prm M) = lam"
  "dim_n (cg_env_of eps b A Y lam prm M) = Height A"
  "dim_d (cg_env_of eps b A Y lam prm M) = Width A"
  "dim_k (cg_env_of eps b A Y lam prm M) = Width Y"
  "precM (cg_env_of eps b A Y lam prm M) = M"
  "isprecond (cg_env_of eps b A Y lam prm M) = (\<not> (is_id M \<and> b))"
  "tolerance (params (cg_env_of eps b A Y lam prm M)) = clamp_tolerance (32 * eps) (tolerance prm)"
  "iter_lim (params (cg_env_of eps b A Y lam prm M)) = iter_lim prm"
  "res_print (params (cg_env_of eps b A Y lam prm M)) = res_print prm"
  "log_lev2 (cg_env_of eps b A Y lam prm M) = (am_i_printing prm \<and> log_level prm \<ge> 2)"
  by (simp_all add: cg_env_of_def)

lemma cg_setup_fields:
  "blkX (cg_setup e Y X) = X"
  "blkB (cg_setup e Y X) = Gemm TRANSPOSE 1 (matA e) Y 0 X"
  "blkP (cg_setup e Y X) = X"
  "hermIntermed (cg_setup e Y X) = Gemm NORMAL 1 (matA e) X 0 Y"
  "blkR (cg_setup e Y X) =
     Axpy (- (lambda e * real (dim_n e))) X
       (Gemm TRANSPOSE (- 1) (matA e) (Gemm NORMAL 1 (matA e) X 0 Y) 1
          (Gemm TRANSPOSE 1 (matA e) Y 0 X))"
  "blkQ (cg_setup e Y X) = Gemm TRANSPOSE 1 (matA e) Y 0 X"
  "ownZ (cg_setup e Y X) = (if isprecond e then Some X else None)"
  "nrmb (cg_setup e Y X) = ColumnNrm2 (blkB (cg_setup e Y X))"
  "ressqr (cg_setup e Y X) = ColumnDot (blkR (cg_setup e Y X)) (blkR (cg_setup e Y X))"
  "rho (cg_setup e Y X) = nrmb (cg_setup e Y X)"
  "rho0 (cg_setup e Y X) = nrmb (cg_setup e Y X)"
  "rhotmp (cg_setup e Y X) = nrmb (cg_setup e Y X)"
  "alpha (cg_setup e Y X) = nrmb (cg_setup e Y X)"
  "malpha (cg_setup e Y X) = nrmb (cg_setup e Y X)"
  "beta (cg_setup e Y X) = nrmb (cg_setup e Y X)"
  "calls (cg_setup e Y X) = setup_calls"
  by (simp_all add: cg_setup_def cg_scalars_def cg_residual_def cg_alloc_def trace_call_def
      Let_def Copy_def setup_calls_def)

lemma cg_setup_ownZ: "isprecond e \<longleftrightarrow> ownZ (cg_setup e Y X) \<noteq> None"
  by (simp add: cg_setup_fields)

lemma cg_setup_state_ok:
  assumes ok: "inputs_ok A Y X" and e: "e = cg_env_of eps b A Y lam prm M"
  shows "state_ok e (cg_setup e Y X)"
proof -
  let ?n = "Height A" and ?d = "Width A" and ?k = "Width Y"
  have A: "has_shape ?n ?d A" and Y: "has_shape ?n ?k Y" and X: "has_shape ?d ?k X"
    using ok by (simp_all add: inputs_ok_def)
  have lA: "length A = ?d" and lY: "length Y = ?k" and lX: "length X = ?k"
    using X by (simp_all add: Width_def has_shape_def)
  have B: "has_shape ?d ?k (Gemm TRANSPOSE 1 A Y 0 X)"
    using lA X lY by (rule has_shape_Gemm_TRANSPOSE)
  have H: "has_shape ?n ?k (Gemm NORMAL 1 A X 0 Y)"
    using A Y lX by (rule has_shape_Gemm_NORMAL)
  have R: "has_shape ?d ?k (Axpy (- (lam * real ?n)) X
       (Gemm TRANSPOSE (- 1) A (Gemm NORMAL 1 A X 0 Y) 1 (Gemm TRANSPOSE 1 A Y 0 X)))"
  proof -
    have lH: "length (Gemm NORMAL 1 A X 0 Y) = ?k" using H by (simp add: has_shape_def)
    have "has_shape ?d ?k
      (Gemm TRANSPOSE (- 1) A (Gemm NORMAL 1 A X 0 Y) 1 (Gemm TRANSPOSE 1 A Y 0 X))"
      using lA B lH by (rule has_shape_Gemm_TRANSPOSE)
    with X show ?thesis by (rule has_shape_Axpy)
  qed
  have lB: "length (Gemm TRANSPOSE 1 A Y 0 X) = ?k" using B by (simp add: has_shape_def)
  show ?thesis
    unfolding state_ok_def cg_setup_fields e cg_env_of_fields
    using A X B H R lB
    by (simp add: length_ColumnNrm2 length_ColumnDot has_shape_length[OF R])
qed

subsection \<open>The loop\<close>

lemma count_loop_calls:
  "count_list (loop_calls p itn m) (PGemm, V_hermIntermed) = m"
  "count_list (loop_calls p itn m) (PColumnDot, V_rhotmp) = m"
  "count_list (loop_calls p itn m) (PAssign, V_rho0) = m"
  "count_list (loop_calls p itn m) (PGemm, V_B) = 0"
  "count_list (loop_calls p itn m) (PGemm, V_R) = 0"
  "count_list (loop_calls p itn m) (PColumnNrm2, V_nrmb) = 0"
  by (induction m arbitrary: itn; simp add: iteration_calls_def)+

lemma count_setup_calls:
  "count_list setup_calls (PGemm, V_hermIntermed) = 1"
  "count_list setup_calls (PColumnDot, V_rhotmp) = 0"
  "count_list setup_calls (PAssign, V_rho0) = 0"
  "count_list setup_calls (PGemm, V_B) = 1"
  "count_list setup_calls (PGemm, V_R) = 1"
  "count_list setup_calls (PColumnNrm2, V_nrmb) = 1"
  by (simp_all add: setup_calls_def)

lemma cg_loop_trace:
  "cg_loop e itn s = Inr (ret, s') \<Longrightarrow> (isprecond e \<longleftrightarrow> ownZ s \<noteq> None) \<Longrightarrow>
   \<exists>m. calls s' = calls s @ loop_calls (isprecond e) itn m
     \<and> ((ret = - 1 \<and> 0 < m \<and> int (itn + m) \<le> iter_lim (params e)
          \<and> converged_columns e s' = dim_k e)
        \<or> (ret = - 6 \<and> \<not> int (itn + m) < iter_lim (params e)
          \<and> (m = 0 \<or> int (itn + m) = iter_lim (params e))
          \<and> (0 < m \<longrightarrow> converged_columns e s' \<noteq> dim_k e)))"
proof (induction e itn s rule: cg_loop.induct)
  case (1 e itn s)
  show ?case
  proof (cases "int itn < iter_lim (params e)")
    case False
    with "1.prems" have "ret = - 6" "s' = s" by (simp_all add: cg_loop.simps[of e itn s])
    with False show ?thesis by (intro exI[of _ 0]) simp
  next
    case lt: True
    with "1.prems"(1) obtain c t where it: "cg_iteration e itn s = Inr (c, t)"
      by (auto simp: cg_loop.simps[of e itn s] split: sum.splits)
    note f = cg_iteration_fields[OF it "1.prems"(2)]
    have Zt: "isprecond e \<longleftrightarrow> ownZ t \<noteq> None" using f(16) by simp
    show ?thesis
    proof (cases c)
      case True
      with it lt "1.prems"(1) have "ret = - 1" "s' = t"
        by (simp_all add: cg_loop.simps[of e itn s])
      with f(17,18) True lt show ?thesis by (intro exI[of _ 1]) simp
    next
      case False
      with it lt "1.prems"(1) have rec: "cg_loop e (Suc itn) t = Inr (ret, s')"
        by (simp add: cg_loop.simps[of e itn s])
      from "1.IH"[OF lt it refl False rec Zt] obtain m where
        m: "calls s' = calls t @ loop_calls (isprecond e) (Suc itn) m"
        and r: "(ret = - 1 \<and> 0 < m \<and> int (Suc itn + m) \<le> iter_lim (params e)
                 \<and> converged_columns e s' = dim_k e)
              \<or> (ret = - 6 \<and> \<not> int (Suc itn + m) < iter_lim (params e)
                 \<and> (m = 0 \<or> int (Suc itn + m) = iter_lim (params e))
                 \<and> (0 < m \<longrightarrow> converged_columns e s' \<noteq> dim_k e))"
        by blast
      have c1: "calls s' = calls s @ loop_calls (isprecond e) itn (Suc m)"
        using m f(17) by simp
      have t0: "m = 0 \<Longrightarrow> s' = t \<and> ret = - 6"
      proof -
        assume "m = 0"
        with r have "\<not> int (Suc itn) < iter_lim (params e)" by auto
        with rec show ?thesis by (simp add: cg_loop.simps[of e "Suc itn" t])
      qed
      have nc: "converged_columns e t \<noteq> dim_k e" using f(18) False by simp
      from r show ?thesis
      proof
        assume "ret = - 1 \<and> 0 < m \<and> int (Suc itn + m) \<le> iter_lim (params e)
                 \<and> converged_columns e s' = dim_k e"
        with c1 show ?thesis by (intro exI[of _ "Suc m"]) simp
      next
        assume a: "ret = - 6 \<and> \<not> int (Suc itn + m) < iter_lim (params e)
                 \<and> (m = 0 \<or> int (Suc itn + m) = iter_lim (params e))
                 \<and> (0 < m \<longrightarrow> converged_columns e s' \<noteq> dim_k e)"
        have "int (itn + Suc m) = iter_lim (params e)"
          using a lt by (cases "m = 0") auto
        moreover have "converged_columns e s' \<noteq> dim_k e"
          using a t0 nc by (cases "m = 0") auto
        ultimately show ?thesis using a c1 by (intro exI[of _ "Suc m"]) simp
      qed
    qed
  qed
qed

lemma factorizedCG_trace:
  assumes "factorizedCG eps b A Y X lam prm M = Inr (ret, s)"
  shows "\<exists>m. calls s = setup_calls @ loop_calls (\<not> (is_id M \<and> b)) 0 m
     \<and> ((ret = - 1 \<and> 0 < m \<and> int m \<le> iter_lim prm
          \<and> converged_columns (cg_env_of eps b A Y lam prm M) s = Width Y)
        \<or> (ret = - 6 \<and> m = nat (iter_lim prm)
          \<and> (0 < m \<longrightarrow> converged_columns (cg_env_of eps b A Y lam prm M) s \<noteq> Width Y)))"
proof -
  let ?e = "cg_env_of eps b A Y lam prm M"
  from assms have "cg_loop ?e 0 (cg_setup ?e Y X) = Inr (ret, s)"
    by (simp add: factorizedCG_def Let_def)
  from cg_loop_trace[OF this cg_setup_ownZ] obtain m where
    "calls s = calls (cg_setup ?e Y X) @ loop_calls (isprecond ?e) 0 m"
    "(ret = - 1 \<and> 0 < m \<and> int (0 + m) \<le> iter_lim (params ?e)
          \<and> converged_columns ?e s = dim_k ?e)
        \<or> (ret = - 6 \<and> \<not> int (0 + m) < iter_lim (params ?e)
          \<and> (m = 0 \<or> int (0 + m) = iter_lim (params ?e))
          \<and> (0 < m \<longrightarrow> converged_columns ?e s \<noteq> dim_k ?e))"
    by blast
  then show ?thesis
    by (intro exI[of _ m]) (auto simp: cg_setup_fields cg_env_of_fields)
qed


subsection \<open>Concrete runs\<close>

lemmas run_defs = factorizedCG_def cg_env_of_def cg_setup_def cg_scalars_def cg_residual_def
  cg_alloc_def cg_iteration_def precondition_def momentum_def direction_def apply_operator_def
  step_size_def update_def converged_columns_def progress_line_def int_rem_def
  trace_call_def write_Z_def Z_of_def clamp_tolerance_def outplace_id_precond_t_def
  Gemm_def Axpy_def Axpy_cont_def ColumnDot_def ColumnNrm2_def DiagonalScale_def El_Zero_def
  Copy_def Height_def Width_def smul_def vadd_def dotp_def tmat_vec_def Let_def

subsection \<open>The convergence test and the loop\<close>

lemma length_filter_full: "length (filter P xs) = length xs \<longleftrightarrow> (\<forall>x\<in>set xs. P x)"
proof (induction xs)
  case (Cons a xs)
  show ?case
  proof (cases "P a")
    case True with Cons show ?thesis by simp
  next
    case False
    have "length (filter P xs) \<noteq> Suc (length xs)"
      using length_filter_le[of P xs] by arith
    with False show ?thesis by auto
  qed
qed simp

lemma less_double_times_zero: "0 \<le> x \<Longrightarrow> \<not> less_double x (double_times t 0)"
  by (cases t) simp_all

lemma converged_columns_all:
  assumes "length (ressqr s) = dim_k e" "length (nrmb s) = dim_k e"
  shows "converged_columns e s = dim_k e
     \<longleftrightarrow> (\<forall>i<dim_k e. less_double (sqrt (ressqr s ! i))
                         (double_times (tolerance (params e)) (nrmb s ! i)))"
proof -
  let ?zs = "zip (ressqr s) (nrmb s)"
  let ?P = "\<lambda>(r, b). less_double (sqrt r) (double_times (tolerance (params e)) b)"
  have l: "length ?zs = dim_k e" using assms by simp
  have "converged_columns e s = dim_k e \<longleftrightarrow> length (filter ?P ?zs) = length ?zs"
    by (simp add: converged_columns_def assms)
  also have "\<dots> \<longleftrightarrow> (\<forall>x\<in>set ?zs. ?P x)" by (rule length_filter_full)
  also have "\<dots> \<longleftrightarrow> (\<forall>i<dim_k e. ?P (?zs ! i))"
    using l by (metis in_set_conv_nth)
  also have "\<dots> \<longleftrightarrow> (\<forall>i<dim_k e. less_double (sqrt (ressqr s ! i))
                         (double_times (tolerance (params e)) (nrmb s ! i)))"
    using assms by simp
  finally show ?thesis .
qed

lemma converged_columns_less:
  assumes i: "i < length (nrmb s)" and k: "length (nrmb s) \<le> dim_k e"
    and z: "nrmb s ! i = 0" and r: "i < length (ressqr s) \<longrightarrow> 0 \<le> ressqr s ! i"
  shows "converged_columns e s < dim_k e"
proof (cases "i < length (ressqr s)")
  case False
  have "converged_columns e s \<le> length (zip (ressqr s) (nrmb s))"
    unfolding converged_columns_def by (rule length_filter_le)
  with False i k show ?thesis by simp
next
  case True
  let ?zs = "zip (ressqr s) (nrmb s)"
  let ?P = "\<lambda>(r, b). less_double (sqrt r) (double_times (tolerance (params e)) b)"
  have iz: "i < length ?zs" using True i by simp
  have "\<not> ?P (?zs ! i)" using True i z r by (simp add: less_double_times_zero)
  with iz have "\<not> (\<forall>x\<in>set ?zs. ?P x)" by (metis nth_mem)
  then have ne: "length (filter ?P ?zs) \<noteq> length ?zs"
    using length_filter_full[of ?P ?zs] by blast
  have lt: "length (filter ?P ?zs) < length ?zs"
    using length_filter_le[of ?P ?zs] ne by (rule le_neq_trans)
  have "length ?zs \<le> length (nrmb s)" by simp
  from this k have "length ?zs \<le> dim_k e" by (rule order_trans)
  with lt show ?thesis unfolding converged_columns_def by (rule less_le_trans)
qed

lemma cg_loop_step:
  assumes "cg_iteration e itn t = Inr (c, t')" and "int itn < iter_lim (params e)"
  shows "c \<Longrightarrow> cg_loop e itn t = Inr (- 1, t')"
    and "\<not> c \<Longrightarrow> cg_loop e itn t = cg_loop e (Suc itn) t'"
  using assms by (simp_all add: cg_loop.simps[of e itn t])

lemma ColumnNrm2_euclid: "ColumnNrm2 B = map euclid_norm B"
  by (simp add: ColumnNrm2_def euclid_norm_def dotp_self_sq)

lemma precond_ok_id: "precond_apply M = (\<lambda>B. B) \<Longrightarrow> precond_ok (cg_env_of eps b A Y lam prm M)"
  by (simp add: precond_ok_def cg_env_of_def)

lemma inputs_ok_1: "inputs_ok [[a]] [[y]] [[x]]"
  by (simp add: inputs_ok_def has_shape_def Height_def Width_def)

lemma precond_apply_id: "precond_apply outplace_id_precond_t = (\<lambda>B. B)"
  by (simp add: outplace_id_precond_t_def)

lemma cg_loop_state_ok:
  assumes "cg_loop e itn s = Inr (ret, s')" and "state_ok e s" and "precond_ok e"
  shows "state_ok e s' \<and> nrmb s' = nrmb s"
proof -
  let ?I = "\<lambda>t. state_ok e t \<and> nrmb t = nrmb s"
  show ?thesis
  proof (rule cg_loop_invariant[OF assms(1), of ?I])
    show "?I s" using assms(2) by simp
  next
    fix j t c t' assume I: "?I t" and it: "cg_iteration e j t = Inr (c, t')"
    from I have Z: "isprecond e \<longleftrightarrow> ownZ t \<noteq> None"
      by (auto simp: state_ok_def split: option.splits)
    from cg_iteration_state_ok[OF it _ assms(3)] I cg_iteration_fields(14)[OF it Z]
    show "?I t'" by simp
  qed
qed

lemma factorizedCG_traceE:
  assumes "factorizedCG eps b A Y X lam prm M = Inr (ret, s)"
  obtains m where "calls s = setup_calls @ loop_calls (\<not> (is_id M \<and> b)) 0 m"
    and "(ret = - 1 \<and> 0 < m \<and> int m \<le> iter_lim prm
          \<and> converged_columns (cg_env_of eps b A Y lam prm M) s = Width Y)
        \<or> (ret = - 6 \<and> m = nat (iter_lim prm)
          \<and> (0 < m \<longrightarrow> converged_columns (cg_env_of eps b A Y lam prm M) s \<noteq> Width Y))"
proof -
  from factorizedCG_trace[OF assms] obtain m where
    cr: "calls s = setup_calls @ loop_calls (\<not> (is_id M \<and> b)) 0 m
     \<and> ((ret = - 1 \<and> 0 < m \<and> int m \<le> iter_lim prm
          \<and> converged_columns (cg_env_of eps b A Y lam prm M) s = Width Y)
        \<or> (ret = - 6 \<and> m = nat (iter_lim prm)
          \<and> (0 < m \<longrightarrow> converged_columns (cg_env_of eps b A Y lam prm M) s \<noteq> Width Y)))" ..
  from that[OF cr[THEN conjunct1] cr[THEN conjunct2]] show thesis .
qed

lemma inputs_ok_2: "inputs_ok [[a, b], [c, d]] [[y, z]] [[x, w]]"
  by (simp add: inputs_ok_def has_shape_def Height_def Width_def)

subsection \<open>The identity matrix and zero blocks\<close>

lemma has_shape_identity: "has_shape d d (identity_mat d)"
  by (simp add: has_shape_nth identity_mat_def)

lemma Width_identity: "Width (identity_mat d) = d"
  by (simp add: Width_def identity_mat_def)

lemma Height_identity: "Height (identity_mat d) = d"
proof (cases d)
  case 0 then show ?thesis by (simp add: Height_def identity_mat_def diag_def)
next
  case (Suc n)
  then have "0 < length (identity_mat d)" by (simp add: identity_mat_def)
  then obtain c cs where c: "identity_mat d = c # cs" by (cases "identity_mat d") auto
  then have "c = identity_mat d ! 0" by simp
  then have "length c = d" using Suc by (simp add: identity_mat_def)
  with c show ?thesis by (simp add: Height_def)
qed

lemma has_shape_zero_mat: "has_shape h w (zero_mat h w)"
  by (simp add: has_shape_nth zero_mat_def)

lemma map_identity_tmat_vec: "has_shape d k V \<Longrightarrow> map (tmat_vec (identity_mat d)) V = V"
  by (rule map_idI) (simp add: identity_tmat_vec has_shape_set)

lemma map_identity_mat_vec: "has_shape d k V \<Longrightarrow> map (mat_vec d (identity_mat d)) V = V"
  by (rule map_idI) (simp add: identity_mat_vec has_shape_set)

lemma Axpy_0: "has_shape h w X \<Longrightarrow> has_shape h w Y \<Longrightarrow> Axpy 0 X Y = Y"
  unfolding Axpy_def
  by (rule nth_equalityI) (auto simp: has_shape_nth intro!: nth_equalityI)

lemma zero_scale_add:
  "has_shape h w P \<Longrightarrow> has_shape h w Z \<Longrightarrow> Axpy 1 Z (DiagonalScale (replicate w 0) P) = Z"
  unfolding Axpy_def DiagonalScale_def
  by (rule nth_equalityI) (auto simp: has_shape_nth intro!: nth_equalityI)

lemma column_divide_self:
  "\<forall>x\<in>set xs. x \<noteq> 0 \<Longrightarrow> column_divide xs xs = Inr (replicate (length xs) 1)"
  by (induction xs) auto

lemma Axpy_cont_ones_zero:
  "has_shape h w Y \<Longrightarrow> Axpy_cont (replicate w 1) Y (zero_mat h w) = Y"
  unfolding Axpy_cont_def
  by (rule nth_equalityI) (auto simp: has_shape_nth zero_mat_def intro!: nth_equalityI)

lemma Axpy_cont_mones_self:
  "has_shape h w Y \<Longrightarrow> Axpy_cont (map uminus (replicate w 1)) Y Y = zero_mat h w"
  unfolding Axpy_cont_def
  by (rule nth_equalityI) (auto simp: has_shape_nth zero_mat_def intro!: nth_equalityI)

lemma ColumnDot_zero: "ColumnDot (zero_mat h w) (zero_mat h w) = replicate w 0"
  unfolding ColumnDot_def zero_mat_def
  by (rule nth_equalityI) (simp_all add: dotp_self_zero_iff)

lemma dotp_self_pos: "length y = d \<Longrightarrow> y \<noteq> replicate d 0 \<Longrightarrow> 0 < dotp y y"
proof -
  assume l: "length y = d" and n: "y \<noteq> replicate d 0"
  have "dotp y y \<noteq> 0"
  proof
    assume "dotp y y = 0"
    then have "\<forall>x\<in>set y. x = 0" by (simp add: dotp_self_zero_iff)
    then have "y = replicate (length y) 0" by (simp add: replicate_length_same)
    with l n show False by simp
  qed
  with dotp_self_nonneg[of y] show ?thesis by simp
qed

text \<open>A pass returns when its two divisions have no zero denominator and the condition
  of the progress line has a defined remainder.\<close>

lemma cg_iteration_returns:
  assumes Z: "isprecond e \<longleftrightarrow> ownZ s \<noteq> None"
    and lg: "\<not> (log_lev2 e \<and> res_print (params e) = 0)"
    and bs: "if itn = 0 then bs = El_Zero (beta s)
             else column_divide (pass_rho e s) (rho0 s) = Inr bs"
    and P': "P' = Axpy 1 (pass_Z e s) (DiagonalScale bs (blkP s))"
    and Q': "Q' = Axpy (lambda e * real (dim_n e)) P'
               (Gemm TRANSPOSE 1 (matA e) (Gemm NORMAL 1 (matA e) P' 0 (hermIntermed s)) 0
                  (blkQ s))"
    and nz: "\<forall>x\<in>set (ColumnDot P' Q'). x \<noteq> 0"
  shows "\<exists>c s'. cg_iteration e itn s = Inr (c, s')"
proof -
  let ?s0 = "precondition e s"
  define s1 where "s1 = trace_call (if itn = 0 then (PZero, V_beta) else (PDivide, V_beta))
               (?s0\<lparr>beta := bs\<rparr>)"
  have r0: "rho ?s0 = pass_rho e s" "rho0 ?s0 = rho0 s" "beta ?s0 = beta s"
    using Z by (auto simp: precondition_def trace_call_def write_Z_def Z_of_def Let_def Copy_def
        pass_rho_def pass_Z_def split: option.splits)
  have m: "momentum itn ?s0 = Inr s1"
    using bs by (auto simp: momentum_def r0 s1_def)
  define s3 where "s3 = apply_operator e (direction s1)"
  have p: "blkP s3 = P'" and q: "blkQ s3 = Q'" and r3: "rho s3 = pass_rho e s"
    using Z unfolding P' Q' s3_def s1_def
    by (auto simp: precondition_def direction_def apply_operator_def trace_call_def write_Z_def
        Z_of_def Let_def Copy_def pass_rho_def pass_Z_def split: option.splits)
  from column_divide_total[OF nz] obtain a where
    a: "column_divide (pass_rho e s) (ColumnDot P' Q') = Inr a" by blast
  have st: "\<exists>s2. step_size s3 = Inr s2"
    by (simp add: step_size_def Let_def trace_call_def p q r3 a)
  have pl: "\<exists>g. progress_line e itn n = Inr g" for n
    using lg by (auto simp: progress_line_def int_rem_def)
  from st obtain s2 where s2: "step_size s3 = Inr s2" ..
  from pl obtain g where g: "progress_line e itn (converged_columns e (update s2)) = Inr g" ..
  show ?thesis
    by (simp add: cg_iteration_def m s2[unfolded s3_def] Let_def g)
qed

lemma clamp_tolerance_Val:
  assumes "0 < eps" and "64 * eps \<le> 1" and "t \<noteq> NaN"
  shows "\<exists>u. clamp_tolerance (32 * eps) t = Val u \<and> 32 * eps \<le> u \<and> u < 1"
  using assms by (cases t) (auto simp: clamp_tolerance_def)

lemma identity_residual:
  assumes Y: "has_shape d k Y"
  shows "Gemm TRANSPOSE (- 1) (identity_mat d) (zero_mat d k) 1 Y = Y"
  unfolding Gemm_TRANSPOSE_m1_1
proof (rule nth_equalityI)
  show "length (map2 (\<lambda>h c. map2 (-) c (tmat_vec (identity_mat d) h)) (zero_mat d k) Y)
      = length Y"
    using Y by (simp add: zero_mat_def has_shape_def)
  fix j assume "j < length (map2 (\<lambda>h c. map2 (-) c (tmat_vec (identity_mat d) h))
      (zero_mat d k) Y)"
  then have j: "j < k" using Y by (simp add: zero_mat_def has_shape_def)
  have l: "length (Y ! j) = d" using Y j by (simp add: has_shape_nth)
  have "map2 (-) (Y ! j) (tmat_vec (identity_mat d) (replicate d 0)) = Y ! j"
    using l by (simp add: identity_tmat_vec) (rule nth_equalityI, simp_all)
  then show "map2 (\<lambda>h c. map2 (-) c (tmat_vec (identity_mat d) h)) (zero_mat d k) Y ! j
      = Y ! j"
    using j Y by (simp add: zero_mat_def has_shape_def)
qed

subsection \<open>Columns in the range of the element type\<close>

lemma dotp_self_entry: "x \<in> set y \<Longrightarrow> x\<^sup>2 \<le> dotp y y"
proof (induction y)
  case Nil then show ?case by simp
next
  case (Cons a y)
  have d: "dotp (a # y) (a # y) = a\<^sup>2 + dotp y y"
    by (simp add: dotp_def power2_eq_square)
  have nn: "0 \<le> dotp y y" by (rule dotp_self_nonneg)
  show ?case
  proof (cases "x = a")
    case True with d nn show ?thesis by simp
  next
    case False
    with Cons have "x\<^sup>2 \<le> dotp y y" by simp
    moreover have "0 \<le> a\<^sup>2" by simp
    ultimately show ?thesis unfolding d by linarith
  qed
qed

lemma column_in_range:
  assumes l: "length y = d" and nz: "y \<noteq> replicate d 0"
    and lo: "\<forall>x\<in>set y. x = 0 \<or> lo \<le> x\<^sup>2"
    and hi: "(1 + eps) ^ d * dotp y y \<le> hi" and eps: "0 < eps"
  shows "lo \<le> dotp y y \<and> dotp y y \<le> hi"
proof -
  have "0 < dotp y y" by (rule dotp_self_pos[OF l nz])
  then have "\<not> (\<forall>x\<in>set y. x = 0)" using dotp_self_zero_iff[of y] by simp
  then obtain x where x: "x \<in> set y" "x \<noteq> 0" by blast
  with lo have "lo \<le> x\<^sup>2" by blast
  also have "\<dots> \<le> dotp y y" by (rule dotp_self_entry[OF x(1)])
  finally have 1: "lo \<le> dotp y y" .
  have "1 \<le> (1 + eps) ^ d" using eps by (simp add: one_le_power)
  then have "1 * dotp y y \<le> (1 + eps) ^ d * dotp y y"
    by (rule mult_right_mono) (rule dotp_self_nonneg)
  with hi have 2: "dotp y y \<le> hi" by simp
  from 1 2 show ?thesis ..
qed

lemma threshold_in_range:
  assumes lo: "0 < lo" and fmt: "4 * lo \<le> (32 * eps)\<^sup>2" and eps: "0 < eps"
    and u: "32 * eps \<le> u" and q: "lo \<le> q"
  shows "2 * lo \<le> u * sqrt q"
proof -
  have "(2 * sqrt lo)\<^sup>2 = 4 * lo" using lo by (simp add: power_mult_distrib)
  with fmt have "(2 * sqrt lo)\<^sup>2 \<le> (32 * eps)\<^sup>2" by simp
  moreover have "0 \<le> 32 * eps" using eps by simp
  ultimately have "2 * sqrt lo \<le> 32 * eps" by (rule power2_le_imp_le)
  with u have 1: "2 * sqrt lo \<le> u" by simp
  have 2: "sqrt lo \<le> sqrt q" using q by simp
  have "2 * lo = (2 * sqrt lo) * sqrt lo" using lo by simp
  also have "\<dots> \<le> u * sqrt q"
  proof (rule mult_mono[OF 1 2])
    show "0 \<le> u" using eps u by simp
    show "0 \<le> sqrt lo" using lo by simp
  qed
  finally show ?thesis .
qed

subsection \<open>A right-hand side column of norm zero\<close>

text \<open>When column \<open>i\<close> of \<open>A\<^sup>T Y\<close> has norm zero, \<open>nrmb[i]\<close> is zero, no residual passes the
  strict test of that column, whatever the tolerance, and the call does not return the
  success code.\<close>

lemma zero_norm_column_no_success:
  assumes ok: "inputs_ok A Y X" and e: "e = cg_env_of eps b A Y lam prm M"
    and i: "i < Width Y"
    and z: "euclid_norm (mat_mul (Width A) (transpose_mat (Height A) A) Y ! i) = 0"
  shows "nrmb (cg_setup e Y X) ! i = 0"
    and "0 \<le> r \<Longrightarrow> \<not> less_double (sqrt r)
             (double_times (tolerance (params e)) (nrmb (cg_setup e Y X) ! i))"
    and "factorizedCG eps b A Y X lam prm M \<noteq> Inr (- 1, s)"
proof -
  let ?s0 = "cg_setup e Y X"
  have A: "has_shape (Height A) (Width A) A" and Y: "has_shape (Height A) (Width Y) Y"
    and X: "has_shape (Width A) (Width Y) X"
    using ok by (simp_all add: inputs_ok_def)
  have k: "dim_k e = Width Y" by (simp add: e cg_env_of_fields)
  have B: "blkB ?s0 = mat_mul (Width A) (transpose_mat (Height A) A) Y"
    unfolding cg_setup_fields e cg_env_of_fields using A Y X by (rule transpose_product)
  have ln: "length (nrmb ?s0) = Width Y"
    unfolding cg_setup_fields(8) length_ColumnNrm2 B by (simp add: mat_mul_def Width_def)
  show 1: "nrmb ?s0 ! i = 0"
    using z i ln unfolding cg_setup_fields(8) B ColumnNrm2_euclid
    by (simp add: mat_mul_def Width_def)
  show "\<not> less_double (sqrt r) (double_times (tolerance (params e)) (nrmb ?s0 ! i))"
    if "0 \<le> r"
    unfolding 1 by (rule less_double_times_zero) (use that in simp)
  show "factorizedCG eps b A Y X lam prm M \<noteq> Inr (- 1, s)"
  proof
    assume run: "factorizedCG eps b A Y X lam prm M = Inr (- 1, s)"
    then have loop: "cg_loop e 0 ?s0 = Inr (- 1, s)"
      by (simp add: factorizedCG_def Let_def e)
    let ?I = "\<lambda>t. (isprecond e \<longleftrightarrow> ownZ t \<noteq> None) \<and> nrmb t = nrmb ?s0
                \<and> ressqr t = ColumnDot (blkR t) (blkR t)"
    have "?I s"
    proof (rule cg_loop_invariant[OF loop, of ?I])
      show "?I ?s0" using cg_setup_ownZ[of e Y X] by (simp add: cg_setup_fields(9))
    next
      fix j t c t' assume I: "?I t" and it: "cg_iteration e j t = Inr (c, t')"
      from I have Z: "isprecond e \<longleftrightarrow> ownZ t \<noteq> None" by simp
      note f = cg_iteration_fields[OF it Z]
      from f(13) f(14) f(16) I show "?I t'" by simp
    qed
    then have n: "nrmb s = nrmb ?s0" and q: "ressqr s = ColumnDot (blkR s) (blkR s)"
      by simp_all
    have nn: "i < length (ressqr s) \<longrightarrow> 0 \<le> ressqr s ! i"
      unfolding q by (simp add: ColumnDot_def dotp_self_nonneg)
    have less: "converged_columns e s < dim_k e"
      by (rule converged_columns_less[where i = i]) (use i ln 1 nn in \<open>simp_all add: n k\<close>)
    from run obtain m where
      c: "calls s = setup_calls @ loop_calls (\<not> (is_id M \<and> b)) 0 m"
      and r: "(- 1 = (- 1 :: int) \<and> 0 < m \<and> int m \<le> iter_lim prm
          \<and> converged_columns (cg_env_of eps b A Y lam prm M) s = Width Y)
        \<or> (- 1 = (- 6 :: int) \<and> m = nat (iter_lim prm)
          \<and> (0 < m \<longrightarrow> converged_columns (cg_env_of eps b A Y lam prm M) s \<noteq> Width Y))"
      by (rule factorizedCG_traceE)
    from r less show False unfolding e[symmetric] k by auto
  qed
qed

section \<open>The claims\<close>

subsection \<open>C1: the recurrence of one pass\<close>

text \<open>
  C1: every pass of the loop performs the recurrence of the specification, in this order:
  \<open>P = P \<cdot> diag(beta) + Z\<close>, then \<open>Q = (A\<^sup>T A + \<lambda> n \<cdot> I) \<cdot> P\<close>, then for every column
  \<open>rhotmp[i] = P\<^sub>i\<^sup>T Q\<^sub>i\<close> and \<open>alpha[i] = rho[i] / rhotmp[i]\<close>, then
  \<open>X = X + P \<cdot> diag(alpha)\<close> and \<open>R = R - Q \<cdot> diag(alpha)\<close>. The pass starts in any state
  of the sizes of the source (these sizes hold after the entry and after every pass) and
  is followed to its end, that is, no denominator is zero.
\<close>

theorem iteration_recurrence:
  assumes ok: "state_ok e s" and M: "precond_ok e"
    and run: "cg_iteration e itn s = Inr (c, s')"
  shows "blkP s' = mat_add (mat_mul (dim_d e) (blkP s) (diag (beta s'))) (pass_Z e s)
     \<and> blkQ s' = mat_mul (dim_d e) (normal_matrix (matA e) (lambda e)) (blkP s')
     \<and> (\<forall>i<dim_k e. rhotmp s' ! i = (\<Sum>r<dim_d e. blkP s' ! i ! r * blkQ s' ! i ! r)
                    \<and> alpha s' ! i = rho s' ! i / rhotmp s' ! i)
     \<and> blkX s' = mat_add (blkX s) (mat_mul (dim_d e) (blkP s') (diag (alpha s')))
     \<and> blkR s' = mat_sub (blkR s) (mat_mul (dim_d e) (blkQ s') (diag (alpha s')))
     \<and> calls s' = calls s @ iteration_calls (isprecond e) (itn = 0)
     \<and> state_ok e s'"
proof -
  let ?d = "dim_d e" and ?k = "dim_k e" and ?n = "dim_n e"
  have Z: "isprecond e \<longleftrightarrow> ownZ s \<noteq> None"
    using ok by (auto simp: state_ok_def split: option.splits)
  note f = cg_iteration_fields[OF run Z]
  have ok': "state_ok e s'" using run ok M by (rule cg_iteration_state_ok)
  have env: "?n = Height (matA e)" "?d = Width (matA e)"
    and A: "has_shape ?n ?d (matA e)"
    and X: "has_shape ?d ?k (blkX s)" and H: "has_shape ?n ?k (hermIntermed s)"
    and P: "has_shape ?d ?k (blkP s)" and R: "has_shape ?d ?k (blkR s)"
    and Q: "has_shape ?d ?k (blkQ s)"
    using ok by (auto simp: state_ok_def)
  have P': "has_shape ?d ?k (blkP s')" and Q': "has_shape ?d ?k (blkQ s')"
    and lb: "length (beta s') = ?k" and la: "length (alpha s') = ?k"
    using ok' by (auto simp: state_ok_def)
  have 1: "blkP s' = mat_add (mat_mul ?d (blkP s) (diag (beta s'))) (pass_Z e s)"
    unfolding f(4) Axpy_1_mat_add DiagonalScale_def mat_mul_diag[OF P lb] ..
  have 2: "blkQ s' = mat_mul ?d (normal_matrix (matA e) (lambda e)) (blkP s')"
    unfolding f(6) f(5) using A P' H Q unfolding env by (rule operator_calls)
  have 3: "rhotmp s' ! i = (\<Sum>r<?d. blkP s' ! i ! r * blkQ s' ! i ! r)
         \<and> alpha s' ! i = rho s' ! i / rhotmp s' ! i" if i: "i < ?k" for i
  proof
    have "rhotmp s' ! i = dotp (blkP s' ! i) (blkQ s' ! i)"
      unfolding f(7) using P' Q' i by (simp add: ColumnDot_def has_shape_def)
    also have "\<dots> = (\<Sum>r<?d. blkP s' ! i ! r * blkQ s' ! i ! r)"
      using P' Q' i by (simp add: dotp_sum has_shape_nth)
    finally show "rhotmp s' ! i = (\<Sum>r<?d. blkP s' ! i ! r * blkQ s' ! i ! r)" .
    from column_divide_Inr[OF f(8)] i la show "alpha s' ! i = rho s' ! i / rhotmp s' ! i"
      by (simp add: f(1))
  qed
  have 4: "blkX s' = mat_add (blkX s) (mat_mul ?d (blkP s') (diag (alpha s')))"
    unfolding f(10) Axpy_cont_plus mat_mul_diag[OF P' la] ..
  have 5: "blkR s' = mat_sub (blkR s) (mat_mul ?d (blkQ s') (diag (alpha s')))"
    unfolding f(11) f(9) Axpy_cont_minus mat_mul_diag[OF Q' la] ..
  from 1 2 3 4 5 f(17) ok' show ?thesis by blast
qed


theorem iteration_recurrence_witness:
  "\<exists>s'. cg_iteration
       (cg_env_of (1 / 2 ^ 52) True [[2]] [[1]] 1
          \<lparr>tolerance = Val (1 / 10 ^ 6), iter_lim = 1, am_i_printing = False,
           log_level = 0, res_print = 1\<rparr> outplace_id_precond_t) 0
       (cg_setup (cg_env_of (1 / 2 ^ 52) True [[2]] [[1]] 1
          \<lparr>tolerance = Val (1 / 10 ^ 6), iter_lim = 1, am_i_printing = False,
           log_level = 0, res_print = 1\<rparr> outplace_id_precond_t) [[1]] [[0]])
      = Inr (True, s')
     \<and> blkP s' = [[2]] \<and> blkQ s' = [[10]] \<and> rhotmp s' = [20] \<and> alpha s' = [1 / 5]
     \<and> blkX s' = [[2 / 5]] \<and> blkR s' = [[0]]
     \<and> blkQ s' = mat_mul 1 (normal_matrix [[2]] 1) (blkP s')
     \<and> blkX s' = mat_add [[0]] (mat_mul 1 (blkP s') (diag (alpha s')))"
proof -
  let ?e = "cg_env_of (1 / 2 ^ 52) True [[2]] [[1]] 1
          \<lparr>tolerance = Val (1 / 10 ^ 6), iter_lim = 1, am_i_printing = False,
           log_level = 0, res_print = 1\<rparr> outplace_id_precond_t"
  let ?s = "cg_setup ?e [[1]] [[0]]"
  have "\<exists>s'. cg_iteration ?e 0 ?s = Inr (True, s')
     \<and> blkP s' = [[2]] \<and> blkQ s' = [[10]] \<and> rhotmp s' = [20] \<and> alpha s' = [1 / 5]
     \<and> blkX s' = [[2 / 5]] \<and> blkR s' = [[0]]"
    by (simp add: run_defs)
  then obtain s' where run: "cg_iteration ?e 0 ?s = Inr (True, s')"
    and v: "blkP s' = [[2]]" "blkQ s' = [[10]]" "rhotmp s' = [20]" "alpha s' = [1 / 5]"
      "blkX s' = [[2 / 5]]" "blkR s' = [[0]]"
    by blast
  have ok: "state_ok ?e ?s" by (rule cg_setup_state_ok[OF inputs_ok_1 refl])
  have M: "precond_ok ?e" by (rule precond_ok_id[OF precond_apply_id])
  from iteration_recurrence[OF ok M run]
  have "blkQ s' = mat_mul 1 (normal_matrix [[2]] 1) (blkP s')"
    and "blkX s' = mat_add [[0]] (mat_mul 1 (blkP s') (diag (alpha s')))"
    by (simp_all add: cg_env_of_fields cg_setup_fields Width_def)
  with run v show ?thesis by blast
qed

subsection \<open>C2: the right-hand side and the initial residual\<close>

text \<open>
  C2: before the first pass, \<open>B = A\<^sup>T Y\<close> is computed once and the residual is set once to
  \<open>R = B - (A\<^sup>T A + \<lambda> n \<cdot> I) \<cdot> X\<^sub>0\<close>, with \<open>n\<close> the height of \<open>A\<close>; the loop does neither
  again. For inputs of the sizes of the source: the state after the entry has these two
  blocks; in a call that returns, the first four calls are those that form \<open>B\<close> and the
  residual, the calls \<^verbatim>\<open>Gemm\<close> into \<open>B\<close> and \<^verbatim>\<open>Gemm\<close> into \<open>R\<close> occur once in the whole
  call, and \<open>B\<close> is at the end what it was after the entry.
\<close>

theorem entry_forms_B_and_residual_once:
  assumes ok: "inputs_ok A Y X" and e: "e = cg_env_of eps b A Y lam prm M"
    and run: "factorizedCG eps b A Y X lam prm M = Inr (ret, s)"
  shows "blkB (cg_setup e Y X) = mat_mul (Width A) (transpose_mat (Height A) A) Y
     \<and> blkR (cg_setup e Y X)
         = mat_sub (blkB (cg_setup e Y X)) (mat_mul (Width A) (normal_matrix A lam) X)
     \<and> blkB s = blkB (cg_setup e Y X)
     \<and> take 4 (calls s) = [(PGemm, V_B), (PGemm, V_hermIntermed), (PGemm, V_R), (PAxpy, V_R)]
     \<and> count_list (calls s) (PGemm, V_B) = 1
     \<and> count_list (calls s) (PGemm, V_R) = 1"
proof -
  let ?n = "Height A" and ?d = "Width A" and ?k = "Width Y"
  have A: "has_shape ?n ?d A" and Y: "has_shape ?n ?k Y" and X: "has_shape ?d ?k X"
    using ok by (simp_all add: inputs_ok_def)
  have lA: "length A = ?d" and lY: "length Y = ?k"
    by (simp_all add: Width_def)
  have B: "has_shape ?d ?k (Gemm TRANSPOSE 1 A Y 0 X)"
    using lA X lY by (rule has_shape_Gemm_TRANSPOSE)
  have 1: "blkB (cg_setup e Y X) = mat_mul ?d (transpose_mat ?n A) Y"
    unfolding cg_setup_fields e cg_env_of_fields using A Y X by (rule transpose_product)
  have 2: "blkR (cg_setup e Y X)
         = mat_sub (blkB (cg_setup e Y X)) (mat_mul ?d (normal_matrix A lam) X)"
    unfolding cg_setup_fields e cg_env_of_fields using A X Y B by (rule residual_calls)
  from run have loop: "cg_loop e 0 (cg_setup e Y X) = Inr (ret, s)"
    by (simp add: factorizedCG_def Let_def e)
  let ?I = "\<lambda>t. (isprecond e \<longleftrightarrow> ownZ t \<noteq> None) \<and> blkB t = blkB (cg_setup e Y X)"
  have "?I s"
  proof (rule cg_loop_invariant[OF loop, of ?I])
    show "?I (cg_setup e Y X)" using cg_setup_ownZ[of e Y X] by simp
  next
    fix j t c t' assume I: "?I t" and it: "cg_iteration e j t = Inr (c, t')"
    from I have Z: "isprecond e \<longleftrightarrow> ownZ t \<noteq> None" by simp
    note f = cg_iteration_fields[OF it Z]
    from f(15) f(16) I show "?I t'" by simp
  qed
  then have 3: "blkB s = blkB (cg_setup e Y X)" by simp
  from factorizedCG_trace[OF run] obtain m where
    c: "calls s = setup_calls @ loop_calls (\<not> (is_id M \<and> b)) 0 m" by blast
  have 4: "take 4 (calls s) = [(PGemm, V_B), (PGemm, V_hermIntermed), (PGemm, V_R), (PAxpy, V_R)]"
    unfolding c by (simp add: setup_calls_def)
  have 5: "count_list (calls s) (PGemm, V_B) = 1" "count_list (calls s) (PGemm, V_R) = 1"
    unfolding c by (simp_all add: count_loop_calls count_setup_calls)
  from 1 2 3 4 5 show ?thesis by blast
qed

theorem entry_forms_B_and_residual_once_witness:
  "\<exists>s. factorizedCG (1 / 2 ^ 52) True [[2]] [[1]] [[3]] 1
          \<lparr>tolerance = Val (1 / 10 ^ 6), iter_lim = 1, am_i_printing = False,
           log_level = 0, res_print = 1\<rparr> outplace_id_precond_t = Inr (- 1, s)
     \<and> blkB s = [[2]] \<and> blkB s = mat_mul 1 (transpose_mat 1 [[2]]) [[1]]
     \<and> mat_sub (blkB s) (mat_mul 1 (normal_matrix [[2]] 1) [[3]]) = [[- 13]]
     \<and> count_list (calls s) (PGemm, V_B) = 1
     \<and> count_list (calls s) (PGemm, V_R) = 1"
proof -
  let ?p = "\<lparr>tolerance = Val (1 / 10 ^ 6), iter_lim = 1, am_i_printing = False,
           log_level = 0, res_print = 1\<rparr>"
  let ?e = "cg_env_of (1 / 2 ^ 52) True [[2]] [[1]] 1 ?p outplace_id_precond_t"
  have "\<exists>s. factorizedCG (1 / 2 ^ 52) True [[2]] [[1]] [[3]] 1 ?p outplace_id_precond_t
          = Inr (- 1, s) \<and> blkB s = [[2]]"
    by (simp add: run_defs cg_loop.simps[of _ 0])
  then obtain s where run: "factorizedCG (1 / 2 ^ 52) True [[2]] [[1]] [[3]] 1 ?p
      outplace_id_precond_t = Inr (- 1, s)" and B: "blkB s = [[2]]"
    by blast
  have R: "blkR (cg_setup ?e [[1]] [[3]]) = [[- 13]]"
    by (simp add: run_defs)
  note t = entry_forms_B_and_residual_once[OF inputs_ok_1 refl run]
  from t have "blkB s = mat_mul (Width [[2]]) (transpose_mat (Height [[2]]) [[2]]) [[1]]"
    by simp
  then have 1: "blkB s = mat_mul 1 (transpose_mat 1 [[2]]) [[1]]"
    by (simp add: Width_def Height_def)
  from t have "blkR (cg_setup ?e [[1]] [[3]])
      = mat_sub (blkB s) (mat_mul (Width [[2]]) (normal_matrix [[2]] 1) [[3]])"
    by simp
  with R have 2: "mat_sub (blkB s) (mat_mul 1 (normal_matrix [[2]] 1) [[3]]) = [[- 13]]"
    by (simp add: Width_def)
  from t have 3: "count_list (calls s) (PGemm, V_B) = 1" "count_list (calls s) (PGemm, V_R) = 1"
    by simp_all
  from run B 1 2 3 show ?thesis by blast
qed

subsection \<open>C3: the convergence policy\<close>

text \<open>
  C3: \<open>nrmb[i] = \<parallel>B\<^sub>i\<parallel>\<close> is computed once, before the loop; at the end of every pass
  column \<open>i\<close> counts as converged exactly when \<open>sqrt(ressqr[i]) < tolerance \<cdot> nrmb[i]\<close>,
  strictly, with \<open>ressqr[i] = R\<^sub>i\<^sup>T R\<^sub>i\<close> of that pass; the loop stops with success exactly
  when all \<open>k\<close> columns pass in the same pass. For inputs of the sizes of the source, in
  three parts: the entry, any pass followed to its end, and any call that returns. The
  tolerance is the one in use after the entry; the test is stated once as the source
  evaluates it on a \<^verbatim>\<open>double\<close>, and once more for a tolerance that is a number \<open>u\<close>.
\<close>

theorem convergence_policy:
  assumes ok: "inputs_ok A Y X" and e: "e = cg_env_of eps b A Y lam prm M"
    and M: "precond_ok e"
  shows "nrmb (cg_setup e Y X)
           = map euclid_norm (mat_mul (Width A) (transpose_mat (Height A) A) Y)
     \<and> (\<forall>itn t c t'. state_ok e t \<longrightarrow> cg_iteration e itn t = Inr (c, t') \<longrightarrow>
           nrmb t' = nrmb t
           \<and> (\<forall>i<Width Y. ressqr t' ! i = dotp (blkR t' ! i) (blkR t' ! i))
           \<and> (c \<longleftrightarrow> (\<forall>i<Width Y. less_double (sqrt (ressqr t' ! i))
                                  (double_times (tolerance (params e)) (nrmb t' ! i))))
           \<and> (\<forall>u. tolerance (params e) = Val u \<longrightarrow>
                 (c \<longleftrightarrow> (\<forall>i<Width Y. sqrt (ressqr t' ! i) < u * nrmb t' ! i)))
           \<and> (int itn < iter_lim prm \<longrightarrow> c \<longrightarrow> cg_loop e itn t = Inr (- 1, t'))
           \<and> (int itn < iter_lim prm \<longrightarrow> \<not> c \<longrightarrow> cg_loop e itn t = cg_loop e (Suc itn) t'))
     \<and> (\<forall>ret s. factorizedCG eps b A Y X lam prm M = Inr (ret, s) \<longrightarrow>
           count_list (calls s) (PColumnNrm2, V_nrmb) = 1
           \<and> take 6 (calls s) = setup_calls
           \<and> nrmb s = nrmb (cg_setup e Y X)
           \<and> (ret = - 1 \<longleftrightarrow> 0 < iterations_done s
                \<and> (\<forall>i<Width Y. less_double (sqrt (ressqr s ! i))
                                  (double_times (tolerance (params e)) (nrmb s ! i))))
           \<and> (\<forall>u. tolerance (params e) = Val u \<longrightarrow>
                 (ret = - 1 \<longleftrightarrow> 0 < iterations_done s
                    \<and> (\<forall>i<Width Y. sqrt (ressqr s ! i) < u * nrmb s ! i))))"
proof (intro conjI allI impI)
  have A: "has_shape (Height A) (Width A) A" and Y: "has_shape (Height A) (Width Y) Y"
    and X: "has_shape (Width A) (Width Y) X"
    using ok by (simp_all add: inputs_ok_def)
  have k: "dim_k e = Width Y" and lim: "iter_lim (params e) = iter_lim prm"
    by (simp_all add: e cg_env_of_fields)
  have "blkB (cg_setup e Y X) = mat_mul (Width A) (transpose_mat (Height A) A) Y"
    unfolding cg_setup_fields e cg_env_of_fields using A Y X by (rule transpose_product)
  then show "nrmb (cg_setup e Y X)
      = map euclid_norm (mat_mul (Width A) (transpose_mat (Height A) A) Y)"
    by (simp add: cg_setup_fields(8) ColumnNrm2_euclid)
  {
    fix itn t c t'
    assume t: "state_ok e t" and it: "cg_iteration e itn t = Inr (c, t')"
    have Z: "isprecond e \<longleftrightarrow> ownZ t \<noteq> None"
      using t by (auto simp: state_ok_def split: option.splits)
    note f = cg_iteration_fields[OF it Z]
    have t': "state_ok e t'" using it t M by (rule cg_iteration_state_ok)
    then have R': "length (blkR t') = Width Y"
      and l: "length (ressqr t') = dim_k e" "length (nrmb t') = dim_k e"
      by (auto simp: state_ok_def has_shape_def k)
    show "nrmb t' = nrmb t" by (rule f(14))
    show "ressqr t' ! i = dotp (blkR t' ! i) (blkR t' ! i)" if "i < Width Y" for i
      unfolding f(13) using that R' by (simp add: ColumnDot_def)
    show c: "c \<longleftrightarrow> (\<forall>i<Width Y. less_double (sqrt (ressqr t' ! i))
                          (double_times (tolerance (params e)) (nrmb t' ! i)))"
      using converged_columns_all[OF l] f(18) k by simp
    show "c \<longleftrightarrow> (\<forall>i<Width Y. sqrt (ressqr t' ! i) < u * nrmb t' ! i)"
      if "tolerance (params e) = Val u" for u
      unfolding c that by simp
    show "cg_loop e itn t = Inr (- 1, t')" if "int itn < iter_lim prm" "c"
      using cg_loop_step(1)[OF it] that lim by simp
    show "cg_loop e itn t = cg_loop e (Suc itn) t'" if "int itn < iter_lim prm" "\<not> c"
      using cg_loop_step(2)[OF it] that lim by simp
  }
  {
    fix ret s
    assume run: "factorizedCG eps b A Y X lam prm M = Inr (ret, s)"
    then have loop: "cg_loop e 0 (cg_setup e Y X) = Inr (ret, s)"
      by (simp add: factorizedCG_def Let_def e)
    have s0: "state_ok e (cg_setup e Y X)" using ok e by (rule cg_setup_state_ok)
    from cg_loop_state_ok[OF loop s0 M]
    have s: "state_ok e s" and n: "nrmb s = nrmb (cg_setup e Y X)" by simp_all
    from s have l: "length (ressqr s) = dim_k e" "length (nrmb s) = dim_k e"
      by (auto simp: state_ok_def)
    from run obtain m where
      c: "calls s = setup_calls @ loop_calls (\<not> (is_id M \<and> b)) 0 m"
      and r: "(ret = - 1 \<and> 0 < m \<and> int m \<le> iter_lim prm
          \<and> converged_columns (cg_env_of eps b A Y lam prm M) s = Width Y)
        \<or> (ret = - 6 \<and> m = nat (iter_lim prm)
          \<and> (0 < m \<longrightarrow> converged_columns (cg_env_of eps b A Y lam prm M) s \<noteq> Width Y))"
      by (rule factorizedCG_traceE)
    have i: "iterations_done s = m"
      by (simp add: iterations_done_def c count_loop_calls count_setup_calls)
    show "count_list (calls s) (PColumnNrm2, V_nrmb) = 1"
      unfolding c by (simp add: count_loop_calls count_setup_calls)
    show "take 6 (calls s) = setup_calls"
      unfolding c by (simp add: setup_calls_def)
    show "nrmb s = nrmb (cg_setup e Y X)" by (rule n)
    have cc: "converged_columns e s = Width Y
      \<longleftrightarrow> (\<forall>i<Width Y. less_double (sqrt (ressqr s ! i))
                          (double_times (tolerance (params e)) (nrmb s ! i)))"
      using converged_columns_all[OF l] by (simp add: k)
    show ret: "ret = - 1 \<longleftrightarrow> 0 < iterations_done s
        \<and> (\<forall>i<Width Y. less_double (sqrt (ressqr s ! i))
                          (double_times (tolerance (params e)) (nrmb s ! i)))"
      unfolding cc[symmetric] i using r unfolding e[symmetric] by auto
    show "ret = - 1 \<longleftrightarrow> 0 < iterations_done s
        \<and> (\<forall>i<Width Y. sqrt (ressqr s ! i) < u * nrmb s ! i)"
      if "tolerance (params e) = Val u" for u
      unfolding ret that by simp
  }
qed


theorem convergence_policy_witness:
  "\<exists>s. factorizedCG (1 / 2 ^ 52) True [[2]] [[1]] [[0]] 1
          \<lparr>tolerance = Val (1 / 10 ^ 6), iter_lim = 1, am_i_printing = False,
           log_level = 0, res_print = 1\<rparr> outplace_id_precond_t = Inr (- 1, s)
     \<and> nrmb s = [2] \<and> ressqr s = [0]
     \<and> nrmb s = map euclid_norm (mat_mul 1 (transpose_mat 1 [[2]]) [[1]])
     \<and> count_list (calls s) (PColumnNrm2, V_nrmb) = 1
     \<and> 0 < iterations_done s
     \<and> sqrt (ressqr s ! 0) < 1 / 10 ^ 6 * nrmb s ! 0"
proof -
  let ?p = "\<lparr>tolerance = Val (1 / 10 ^ 6), iter_lim = 1, am_i_printing = False,
           log_level = 0, res_print = 1\<rparr>"
  let ?e = "cg_env_of (1 / 2 ^ 52) True [[2]] [[1]] 1 ?p outplace_id_precond_t"
  have "\<exists>s. factorizedCG (1 / 2 ^ 52) True [[2]] [[1]] [[0]] 1 ?p outplace_id_precond_t
          = Inr (- 1, s) \<and> nrmb s = [2] \<and> ressqr s = [0]"
    by (simp add: run_defs cg_loop.simps[of _ 0])
  then obtain s where run: "factorizedCG (1 / 2 ^ 52) True [[2]] [[1]] [[0]] 1 ?p
      outplace_id_precond_t = Inr (- 1, s)" and v: "nrmb s = [2]" "ressqr s = [0]"
    by blast
  have ok: "inputs_ok [[2]] [[1]] [[0]]" by (rule inputs_ok_1)
  have Mok: "precond_ok ?e" by (rule precond_ok_id[OF precond_apply_id])
  note t = convergence_policy[OF ok refl Mok]
  note t3 = t[THEN conjunct2, THEN conjunct2, rule_format, OF run]
  from t t3 have 1: "nrmb s = map euclid_norm (mat_mul 1 (transpose_mat 1 [[2]]) [[1]])"
    by (simp add: Width_def Height_def)
  note 2 = t3[THEN conjunct1]
  note t4 = t3[THEN conjunct2, THEN conjunct2, THEN conjunct2, THEN conjunct2, rule_format]
  have u: "tolerance (params ?e) = Val (1 / 10 ^ 6)"
    by (simp add: cg_env_of_fields clamp_tolerance_def)
  from t4[OF u] have 3: "0 < iterations_done s"
    and "\<forall>i<Width [[1]]. sqrt (ressqr s ! i) < 1 / 10 ^ 6 * nrmb s ! i"
    by simp_all
  then have 4: "sqrt (ressqr s ! 0) < 1 / 10 ^ 6 * nrmb s ! 0"
    by (simp add: Width_def)
  from run v 1 2 3 4 show ?thesis by blast
qed

subsection \<open>C4: the number of applications of the operator\<close>

text \<open>
  C4, as stated: with \<^verbatim>\<open>iter_lim = L\<close> the operator \<open>A\<^sup>T A + \<lambda> n \<cdot> I\<close> is applied at most
  \<open>L\<close> times over the whole call. This fails: lines 85 to 89 apply it once to \<open>X\<^sub>0\<close> for
  the initial residual, before the loop. With \<open>L = 1\<close>, \<open>A = (1)\<close>, \<open>Y = (1)\<close>,
  \<open>X\<^sub>0 = (0)\<close> the call converges in its one pass and has applied the operator twice.
\<close>

theorem operator_budget_counterexample:
  "\<exists>s. factorizedCG (1 / 2 ^ 52) True [[1]] [[1]] [[0]] 0
          \<lparr>tolerance = Val (1 / 10 ^ 6), iter_lim = 1, am_i_printing = False,
           log_level = 0, res_print = 1\<rparr> outplace_id_precond_t = Inr (- 1, s)
       \<and> operator_applications s = 2 \<and> \<not> int (operator_applications s) \<le> 1"
  by (simp add: run_defs cg_loop.simps[of _ 0] operator_applications_def)

text \<open>
  C4, amended: with \<^verbatim>\<open>iter_lim = L\<close>, a call that returns has applied the operator once
  before the loop and once in each pass, and has made at most \<open>L\<close> passes (none for
  \<open>L \<le> 0\<close>): at most \<open>L + 1\<close> applications over the whole call. It returns \<open>- 1\<close> after a
  pass in which all columns passed the test, and \<open>- 6\<close> after exactly \<open>L\<close> passes when
  the last pass did not see all columns pass.
\<close>

theorem operator_budget:
  assumes "factorizedCG eps b A Y X lam prm M = Inr (ret, s)"
  shows "operator_applications s = iterations_done s + 1
     \<and> iterations_done s \<le> nat (iter_lim prm)
     \<and> operator_applications s \<le> nat (iter_lim prm) + 1
     \<and> (ret = - 1 \<and> 0 < iterations_done s
           \<and> converged_columns (cg_env_of eps b A Y lam prm M) s = Width Y
         \<or> ret = - 6 \<and> iterations_done s = nat (iter_lim prm)
           \<and> (0 < iterations_done s
                \<longrightarrow> converged_columns (cg_env_of eps b A Y lam prm M) s \<noteq> Width Y))"
proof -
  from factorizedCG_trace[OF assms] obtain m where
    cr: "calls s = setup_calls @ loop_calls (\<not> (is_id M \<and> b)) 0 m
     \<and> ((ret = - 1 \<and> 0 < m \<and> int m \<le> iter_lim prm
          \<and> converged_columns (cg_env_of eps b A Y lam prm M) s = Width Y)
        \<or> (ret = - 6 \<and> m = nat (iter_lim prm)
          \<and> (0 < m \<longrightarrow> converged_columns (cg_env_of eps b A Y lam prm M) s \<noteq> Width Y)))" ..
  note c = cr[THEN conjunct1] and r = cr[THEN conjunct2]
  have i: "iterations_done s = m"
    by (simp add: iterations_done_def c count_loop_calls count_setup_calls)
  have a: "operator_applications s = m + 1"
    by (simp add: operator_applications_def c count_loop_calls count_setup_calls)
  from r have "m \<le> nat (iter_lim prm)" by auto
  with i a r show ?thesis by auto
qed

theorem operator_budget_witness:
  "\<exists>s. factorizedCG (1 / 2 ^ 52) True [[1]] [[1]] [[0]] 0
          \<lparr>tolerance = Val (1 / 10 ^ 6), iter_lim = 1, am_i_printing = False,
           log_level = 0, res_print = 1\<rparr> outplace_id_precond_t = Inr (- 1, s)
       \<and> iterations_done s = 1 \<and> operator_applications s = 2"
proof -
  have "\<exists>s. factorizedCG (1 / 2 ^ 52) True [[1]] [[1]] [[0]] 0
          \<lparr>tolerance = Val (1 / 10 ^ 6), iter_lim = 1, am_i_printing = False,
           log_level = 0, res_print = 1\<rparr> outplace_id_precond_t = Inr (- 1, s)"
    by (simp add: run_defs cg_loop.simps[of _ 0])
  then obtain s where run: "factorizedCG (1 / 2 ^ 52) True [[1]] [[1]] [[0]] 0
          \<lparr>tolerance = Val (1 / 10 ^ 6), iter_lim = 1, am_i_printing = False,
           log_level = 0, res_print = 1\<rparr> outplace_id_precond_t = Inr (- 1, s)" ..
  from operator_budget[OF run] have "iterations_done s = 1 \<and> operator_applications s = 2"
    by simp
  with run show ?thesis by blast
qed

subsection \<open>C5: the two status codes\<close>

text \<open>
  C5: for every input the solver returns one of the two status codes. The code misses
  this when the caller asks for the progress lines (\<^verbatim>\<open>am_i_printing\<close>, \<^verbatim>\<open>log_level \<ge> 2\<close>)
  with \<^verbatim>\<open>res_print = 0\<close>: line 156 evaluates \<^verbatim>\<open>itn % params.res_print\<close> in the first pass,
  a remainder by zero, and no status is returned.
\<close>

theorem res_print_zero_no_status:
  "factorizedCG (1 / 2 ^ 52) True [[1]] [[1]] [[0]] 0
     \<lparr>tolerance = Val (1 / 10 ^ 6), iter_lim = 1, am_i_printing = True,
      log_level = 2, res_print = 0\<rparr> outplace_id_precond_t
   = Inl ZeroModulus"
  by (simp add: run_defs cg_loop.simps[of _ 0])

subsection \<open>C6: the tolerance at entry\<close>

text \<open>
  C6, as stated: for every tolerance of the caller, the tolerance used by the convergence
  test lies in \<open>[32 \<epsilon>, 1 - 32 \<epsilon>]\<close>. This fails: a tolerance strictly between
  \<open>1 - 32 \<epsilon>\<close> and \<open>1\<close> passes both tests of lines 75 and 76 and is used as it is. With
  the \<open>\<epsilon> = 2\<^sup>-\<^sup>5\<^sup>2\<close> of \<^verbatim>\<open>double\<close>, the tolerance \<open>1 - 2\<^sup>-\<^sup>5\<^sup>3\<close> (the largest
  \<^verbatim>\<open>double\<close> below 1) stays above \<open>1 - 32 \<epsilon>\<close>. A NaN fails both tests as well and stays
  a NaN, which lies in no band.
\<close>

theorem tolerance_band_counterexample:
  "tolerance (params (cg_env_of (1 / 2 ^ 52) True [[1]] [[1]] 0
        \<lparr>tolerance = Val (1 - 1 / 2 ^ 53), iter_lim = 100, am_i_printing = False,
         log_level = 0, res_print = 1\<rparr> outplace_id_precond_t))
     = Val (1 - 1 / 2 ^ 53)
   \<and> \<not> (1 - 1 / 2 ^ 53 :: real) \<le> 1 - 32 * (1 / 2 ^ 52)
   \<and> tolerance (params (cg_env_of (1 / 2 ^ 52) True [[1]] [[1]] 0
        \<lparr>tolerance = NaN, iter_lim = 100, am_i_printing = False,
         log_level = 0, res_print = 1\<rparr> outplace_id_precond_t))
     = NaN"
  by (simp add: cg_env_of_def clamp_tolerance_def)

text \<open>
  C6, amended: no tolerance is rejected (the entry has no failing branch); with
  \<open>0 < 32 \<epsilon> \<le> 1/2\<close> and a tolerance that is not a NaN, the tolerance used by the
  convergence test is a number \<open>u\<close> in \<open>[32 \<epsilon>, 1)\<close>: a tolerance below \<open>32 \<epsilon>\<close> (or
  \<open>-\<infinity>\<close>) becomes \<open>32 \<epsilon>\<close>, a tolerance of 1 or more (or \<open>+\<infinity>\<close>) becomes \<open>1 - 32 \<epsilon>\<close>, any
  other is kept. It lies in \<open>[32 \<epsilon>, 1 - 32 \<epsilon>]\<close> unless the caller's tolerance is strictly
  between \<open>1 - 32 \<epsilon>\<close> and \<open>1\<close>; in particular the tolerances \<open>2\<close> and \<open>0\<close> become
  \<open>1 - 32 \<epsilon>\<close> and \<open>32 \<epsilon>\<close>.
\<close>

theorem tolerance_band:
  assumes "0 < eps" and "64 * eps \<le> 1" and "tolerance prm \<noteq> NaN"
  shows "\<exists>u. tolerance (params (cg_env_of eps b A Y lam prm M)) = Val u
    \<and> 32 * eps \<le> u \<and> u < 1
    \<and> (\<forall>t. tolerance prm = Val t \<longrightarrow>
          (t < 32 * eps \<longrightarrow> u = 32 * eps)
        \<and> (1 \<le> t \<longrightarrow> u = 1 - 32 * eps)
        \<and> (32 * eps \<le> t \<and> t < 1 \<longrightarrow> u = t)
        \<and> (t \<le> 1 - 32 * eps \<or> 1 \<le> t \<longrightarrow> u \<le> 1 - 32 * eps))
    \<and> (tolerance prm = MinusInf \<longrightarrow> u = 32 * eps)
    \<and> (tolerance prm = PlusInf \<longrightarrow> u = 1 - 32 * eps)
    \<and> (tolerance prm = Val 2 \<longrightarrow> u = 1 - 32 * eps)
    \<and> (tolerance prm = Val 0 \<longrightarrow> u = 32 * eps)"
  using assms by (cases "tolerance prm") (auto simp: cg_env_of_def clamp_tolerance_def)

theorem tolerance_band_witness:
  "(0::real) < 1 / 2 ^ 52 \<and> 64 * (1 / 2 ^ 52) \<le> (1::real)
   \<and> tolerance (params (cg_env_of (1 / 2 ^ 52) True [[1]] [[1]] 0
        \<lparr>tolerance = Val 2, iter_lim = 100, am_i_printing = False,
         log_level = 0, res_print = 1\<rparr> outplace_id_precond_t))
     = Val (1 - 32 * (1 / 2 ^ 52))
   \<and> tolerance (params (cg_env_of (1 / 2 ^ 52) True [[1]] [[1]] 0
        \<lparr>tolerance = Val 0, iter_lim = 100, am_i_printing = False,
         log_level = 0, res_print = 1\<rparr> outplace_id_precond_t))
     = Val (32 * (1 / 2 ^ 52))
   \<and> tolerance (params (cg_env_of (1 / 2 ^ 52) True [[1]] [[1]] 0
        \<lparr>tolerance = PlusInf, iter_lim = 100, am_i_printing = False,
         log_level = 0, res_print = 1\<rparr> outplace_id_precond_t))
     = Val (1 - 32 * (1 / 2 ^ 52))"
proof -
  have e: "(0::real) < 1 / 2 ^ 52" "64 * (1 / 2 ^ 52) \<le> (1::real)" by simp_all
  let ?p = "\<lambda>t. \<lparr>tolerance = t, iter_lim = 100, am_i_printing = False, log_level = 0,
                 res_print = 1\<rparr>"
  have n: "tolerance (?p (Val 2)) \<noteq> NaN" "tolerance (?p (Val 0)) \<noteq> NaN"
    "tolerance (?p PlusInf) \<noteq> NaN"
    by simp_all
  from tolerance_band[OF e n(1), of True "[[1]]" "[[1]]" 0 outplace_id_precond_t]
  have 1: "tolerance (params (cg_env_of (1 / 2 ^ 52) True [[1]] [[1]] 0 (?p (Val 2))
      outplace_id_precond_t)) = Val (1 - 32 * (1 / 2 ^ 52))"
    by auto
  from tolerance_band[OF e n(2), of True "[[1]]" "[[1]]" 0 outplace_id_precond_t]
  have 2: "tolerance (params (cg_env_of (1 / 2 ^ 52) True [[1]] [[1]] 0 (?p (Val 0))
      outplace_id_precond_t)) = Val (32 * (1 / 2 ^ 52))"
    by auto
  from tolerance_band[OF e n(3), of True "[[1]]" "[[1]]" 0 outplace_id_precond_t]
  have 3: "tolerance (params (cg_env_of (1 / 2 ^ 52) True [[1]] [[1]] 0 (?p PlusInf)
      outplace_id_precond_t)) = Val (1 - 32 * (1 / 2 ^ 52))"
    by auto
  from e 1 2 3 show ?thesis by blast
qed

subsection \<open>C7: the momentum coefficient\<close>

text \<open>
  C7: in the first pass \<open>beta[i]\<close> is zero for every column; in every later pass
  \<open>beta[i] = rho[i] / rho0[i]\<close>, where \<open>rho0\<close> is the \<open>rho\<close> of the pass before: each pass
  assigns \<open>rho0 = rho\<close> once, after the division for \<open>alpha\<close> and the updates of \<open>X\<close> and
  \<open>R\<close>, and the next pass divides for \<open>beta\<close> before anything writes \<open>rho0\<close> again. For a
  pass from any state of the sizes of the source, followed to its end, and for the pass
  after it; the calls of a pass are numbered from 0.
\<close>

theorem momentum_coefficient:
  assumes ok: "state_ok e s" and M: "precond_ok e"
    and run: "cg_iteration e itn s = Inr (c, s1)"
  shows "(itn = 0 \<longrightarrow> (\<forall>i<dim_k e. beta s1 ! i = 0))
     \<and> (itn \<noteq> 0 \<longrightarrow> (\<forall>i<dim_k e. beta s1 ! i = rho s1 ! i / rho0 s ! i))
     \<and> length (beta s1) = dim_k e
     \<and> rho0 s1 = rho s1
     \<and> (\<forall>c2 s2. cg_iteration e (Suc itn) s1 = Inr (c2, s2) \<longrightarrow>
           (\<forall>i<dim_k e. beta s2 ! i = rho s2 ! i / rho s1 ! i))
     \<and> calls s1 = calls s @ iteration_calls (isprecond e) (itn = 0)
     \<and> length (iteration_calls (isprecond e) (itn = 0)) = 14
     \<and> iteration_calls (isprecond e) (itn = 0) ! 2
         = (if itn = 0 then (PZero, V_beta) else (PDivide, V_beta))
     \<and> iteration_calls (isprecond e) (itn = 0) ! 9 = (PDivide, V_alpha)
     \<and> iteration_calls (isprecond e) (itn = 0) ! 10 = (PAxpy, V_X)
     \<and> iteration_calls (isprecond e) (itn = 0) ! 11 = (PAxpy, V_R)
     \<and> iteration_calls (isprecond e) (itn = 0) ! 12 = (PAssign, V_rho0)
     \<and> count_list (iteration_calls (isprecond e) (itn = 0)) (PAssign, V_rho0) = 1"
proof -
  have Z: "isprecond e \<longleftrightarrow> ownZ s \<noteq> None"
    using ok by (auto simp: state_ok_def split: option.splits)
  note f = cg_iteration_fields[OF run Z]
  have ok1: "state_ok e s1" using run ok M by (rule cg_iteration_state_ok)
  have Z1: "isprecond e \<longleftrightarrow> ownZ s1 \<noteq> None"
    using ok1 by (auto simp: state_ok_def split: option.splits)
  have lb: "length (beta s) = dim_k e" and lb1: "length (beta s1) = dim_k e"
    using ok ok1 by (auto simp: state_ok_def)
  have 1: "beta s1 ! i = 0" if "itn = 0" "i < dim_k e" for i
    using f(2)[OF that(1)] that(2) lb by (simp add: El_Zero_def)
  have 2: "beta s1 ! i = rho s1 ! i / rho0 s ! i" if "itn \<noteq> 0" "i < dim_k e" for i
    using column_divide_Inr[OF f(3)[OF that(1)]] that(2) lb1 by (simp add: f(1))
  have 3: "rho0 s1 = rho s1" by (simp add: f(1) f(12))
  have 4: "beta s2 ! i = rho s2 ! i / rho s1 ! i"
    if it2: "cg_iteration e (Suc itn) s1 = Inr (c2, s2)" and i: "i < dim_k e" for c2 s2 i
  proof -
    note g = cg_iteration_fields[OF it2 Z1]
    have "state_ok e s2" using it2 ok1 M by (rule cg_iteration_state_ok)
    then have "length (beta s2) = dim_k e" by (auto simp: state_ok_def)
    with column_divide_Inr[OF g(3)] i show ?thesis by (simp add: g(1) 3)
  qed
  have 5: "length (iteration_calls (isprecond e) (itn = 0)) = 14"
    "iteration_calls (isprecond e) (itn = 0) ! 2
         = (if itn = 0 then (PZero, V_beta) else (PDivide, V_beta))"
    "iteration_calls (isprecond e) (itn = 0) ! 9 = (PDivide, V_alpha)"
    "iteration_calls (isprecond e) (itn = 0) ! 10 = (PAxpy, V_X)"
    "iteration_calls (isprecond e) (itn = 0) ! 11 = (PAxpy, V_R)"
    "iteration_calls (isprecond e) (itn = 0) ! 12 = (PAssign, V_rho0)"
    "count_list (iteration_calls (isprecond e) (itn = 0)) (PAssign, V_rho0) = 1"
    by (simp_all add: iteration_calls_def)
  from 1 2 lb1 3 4 f(17) 5 show ?thesis by blast
qed


theorem momentum_coefficient_witness:
  "\<exists>s1 s2.
     cg_iteration
       (cg_env_of (1 / 2 ^ 52) True [[1, 0], [0, 2]] [[1, 1]] 0
          \<lparr>tolerance = Val (1 / 10 ^ 6), iter_lim = 2, am_i_printing = False,
           log_level = 0, res_print = 1\<rparr> outplace_id_precond_t) 0
       (cg_setup (cg_env_of (1 / 2 ^ 52) True [[1, 0], [0, 2]] [[1, 1]] 0
          \<lparr>tolerance = Val (1 / 10 ^ 6), iter_lim = 2, am_i_printing = False,
           log_level = 0, res_print = 1\<rparr> outplace_id_precond_t) [[1, 1]] [[0, 0]])
      = Inr (False, s1)
     \<and> cg_iteration
       (cg_env_of (1 / 2 ^ 52) True [[1, 0], [0, 2]] [[1, 1]] 0
          \<lparr>tolerance = Val (1 / 10 ^ 6), iter_lim = 2, am_i_printing = False,
           log_level = 0, res_print = 1\<rparr> outplace_id_precond_t) (Suc 0) s1
      = Inr (True, s2)
     \<and> beta s1 = [0] \<and> rho s1 = [5] \<and> rho0 s1 = [5]
     \<and> rho s2 = [180 / 289] \<and> beta s2 = [36 / 289]
     \<and> beta s2 ! 0 = rho s2 ! 0 / rho s1 ! 0
     \<and> blkX s2 = [[1, 1 / 2]]"
proof -
  let ?p = "\<lparr>tolerance = Val (1 / 10 ^ 6), iter_lim = 2, am_i_printing = False,
           log_level = 0, res_print = 1\<rparr>"
  let ?e = "cg_env_of (1 / 2 ^ 52) True [[1, 0], [0, 2]] [[1, 1]] 0 ?p outplace_id_precond_t"
  let ?s = "cg_setup ?e [[1, 1]] [[0, 0]]"
  have h: "\<not> sqrt (180 / 289) * 1000000 < sqrt 5"
  proof -
    have a: "sqrt 5 < 3" by (rule real_less_lsqrt) (simp_all add: power2_eq_square)
    have b: "1 / 2 \<le> sqrt (180 / 289)"
      by (rule real_le_rsqrt) (simp add: power2_eq_square)
    from a b show ?thesis by linarith
  qed
  have "\<exists>s1. cg_iteration ?e 0 ?s = Inr (False, s1)
      \<and> beta s1 = [0] \<and> rho s1 = [5] \<and> rho0 s1 = [5]
      \<and> (\<exists>s2. cg_iteration ?e (Suc 0) s1 = Inr (True, s2)
           \<and> rho s2 = [180 / 289] \<and> beta s2 = [36 / 289] \<and> blkX s2 = [[1, 1 / 2]])"
    by (simp add: run_defs h)
  then obtain s1 s2 where run1: "cg_iteration ?e 0 ?s = Inr (False, s1)"
    and v1: "beta s1 = [0]" "rho s1 = [5]" "rho0 s1 = [5]"
    and run2: "cg_iteration ?e (Suc 0) s1 = Inr (True, s2)"
    and v2: "rho s2 = [180 / 289]" "beta s2 = [36 / 289]" "blkX s2 = [[1, 1 / 2]]"
    by blast
  have ok: "state_ok ?e ?s" by (rule cg_setup_state_ok[OF inputs_ok_2 refl])
  have M: "precond_ok ?e" by (rule precond_ok_id[OF precond_apply_id])
  note t = momentum_coefficient[OF ok M run1]
  note t5 = t[THEN conjunct2, THEN conjunct2, THEN conjunct2, THEN conjunct2, THEN conjunct1,
      rule_format, OF run2, of 0]
  have "beta s2 ! 0 = rho s2 ! 0 / rho s1 ! 0"
    by (rule t5) (simp add: cg_env_of_fields Width_def)
  with run1 run2 v1 v2 show ?thesis by blast
qed

subsection \<open>C8: the divisions are not guarded\<close>

text \<open>
  C8: the divisions \<^verbatim>\<open>rho[i] / rho0[i]\<close> and \<^verbatim>\<open>rho[i] / rhotmp[i]\<close> are executed without
  a test of the denominator, and states with a zero denominator are reachable.

  First run: \<open>A = (1)\<close>, \<open>Y = (0)\<close>, \<open>X\<^sub>0 = (0)\<close>, no preconditioner. The state after the
  entry has \<open>R = 0\<close>; the first pass computes \<open>rhotmp = [0]\<close> and divides by it.

  Second run: \<open>A\<close> the \<open>2 \<times> 2\<close> identity, \<open>Y = (1, 0)\<^sup>T\<close>, \<open>X\<^sub>0 = 0\<close> and a preconditioner
  that swaps the two rows. The first pass returns with \<open>rho0 = [0]\<close>; the second pass
  divides by it.
\<close>

theorem unguarded_divisions:
  "(let e = cg_env_of (1 / 2 ^ 52) True [[1]] [[0]] 0
              \<lparr>tolerance = Val (1 / 10 ^ 6), iter_lim = 1, am_i_printing = False,
               log_level = 0, res_print = 1\<rparr> outplace_id_precond_t;
        s0 = cg_setup e [[0]] [[0]];
        s1 = apply_operator e (direction (projr (momentum 0 (precondition e s0))))
    in ColumnDot (blkP s1) (blkQ s1) = [0]
       \<and> step_size s1 = Inl ZeroDenominator
       \<and> cg_iteration e 0 s0 = Inl ZeroDenominator
       \<and> cg_loop e 0 s0 = Inl ZeroDenominator)
   \<and> factorizedCG (1 / 2 ^ 52) True [[1]] [[0]] [[0]] 0
        \<lparr>tolerance = Val (1 / 10 ^ 6), iter_lim = 1, am_i_printing = False,
         log_level = 0, res_print = 1\<rparr> outplace_id_precond_t = Inl ZeroDenominator
   \<and> (let e = cg_env_of (1 / 2 ^ 52) True [[1, 0], [0, 1]] [[1, 0]] 0
              \<lparr>tolerance = Val (1 / 10 ^ 6), iter_lim = 2, am_i_printing = False,
               log_level = 0, res_print = 1\<rparr> \<lparr>is_id = False, precond_apply = map rev\<rparr>;
        s0 = cg_setup e [[1, 0]] [[0, 0]];
        s1 = snd (projr (cg_iteration e 0 s0))
    in \<not> isl (cg_iteration e 0 s0) \<and> \<not> fst (projr (cg_iteration e 0 s0))
       \<and> rho0 s1 = [0]
       \<and> momentum 1 (precondition e s1) = Inl ZeroDenominator
       \<and> cg_iteration e 1 s1 = Inl ZeroDenominator
       \<and> cg_loop e 0 s0 = Inl ZeroDenominator)
   \<and> factorizedCG (1 / 2 ^ 52) True [[1, 0], [0, 1]] [[1, 0]] [[0, 0]] 0
        \<lparr>tolerance = Val (1 / 10 ^ 6), iter_lim = 2, am_i_printing = False,
         log_level = 0, res_print = 1\<rparr> \<lparr>is_id = False, precond_apply = map rev\<rparr>
      = Inl ZeroDenominator"
  by (simp add: run_defs cg_loop.simps[of _ 0] cg_loop.simps[of _ "Suc 0"])

subsection \<open>C9: exact recovery for the identity\<close>

text \<open>
  C9, as stated: for every \<open>Y\<close>, with \<open>A\<close> the identity, \<open>\<lambda> = 0\<close> and \<open>X\<^sub>0 = 0\<close>, one pass
  gives \<open>X = Y\<close> and the solver stops with success. This fails when a column of \<open>Y\<close> is
  zero: then \<open>nrmb\<close> of that column is 0, its \<open>rho\<close> and \<open>rhotmp\<close> are 0, and the first pass
  divides 0 by 0 for its \<open>alpha\<close>; the column cannot pass the strict test, and the call
  does not return the success code. Here \<open>Y\<close> has the columns \<open>(1)\<close> and \<open>(0)\<close>.
\<close>

theorem exact_recovery_counterexample:
  "factorizedCG (1 / 2 ^ 52) True (identity_mat 1) [[1], [0]] (zero_mat 1 2) 0
     \<lparr>tolerance = Val (1 / 10 ^ 6), iter_lim = 50, am_i_printing = False,
      log_level = 0, res_print = 1\<rparr> outplace_id_precond_t
   = Inl ZeroDenominator
   \<and> \<not> (\<exists>s. factorizedCG (1 / 2 ^ 52) True (identity_mat 1) [[1], [0]] (zero_mat 1 2) 0
     \<lparr>tolerance = Val (1 / 10 ^ 6), iter_lim = 50, am_i_printing = False,
      log_level = 0, res_print = 1\<rparr> outplace_id_precond_t = Inr (- 1, s)
     \<and> blkX s = [[1], [0]])"
  by (simp add: run_defs cg_loop.simps[of _ 0] identity_mat_def diag_def zero_mat_def
      numeral_2_eq_2)

text \<open>
  C9, amended. The same happens in \<^verbatim>\<open>value_type\<close> whenever the squared norm of a nonzero
  column, as \<^verbatim>\<open>ColumnDot\<close> computes it, is zero or infinite, so the columns of \<open>Y\<close> have
  to be in the range of \<^verbatim>\<open>value_type\<close>. Let \<open>lo\<close> be its smallest positive normal number
  and \<open>hi\<close> its largest finite number, with \<open>4 lo \<le> (32 \<epsilon>)\<^sup>2\<close> (as for \<^verbatim>\<open>float\<close> and
  \<^verbatim>\<open>double\<close>). When no column of \<open>Y\<close> is zero, every entry of \<open>Y\<close> is zero or has a
  square of at least \<open>lo\<close>, \<open>(1 + \<epsilon>)\<^sup>d\<close> times the squared norm of every column is at most
  \<open>hi\<close>, the tolerance is not a NaN, \<open>A\<close> is the \<open>d \<times> d\<close> identity, \<open>\<lambda> = 0\<close>, \<open>X\<^sub>0\<close> is the
  zero block, the preconditioner returns its argument (as the default one does), the
  iteration limit is at least 1 and the progress lines are not asked for with
  \<^verbatim>\<open>res_print = 0\<close>, the solver makes exactly one pass, returns the success code and
  leaves \<open>X = Y\<close>.

  The outcome rests on three facts about that pass, which are part of the statement:
  numerator and denominator of every step size are the same dot product
  \<open>Y\<^sub>i\<^sup>T Y\<^sub>i\<close>, which lies in \<open>[lo, hi]\<close>, so every step size is 1; the new residual is
  zero; and the tolerance is a number \<open>u\<close> whose product with \<open>nrmb[i]\<close> is at least
  \<open>2 lo\<close>.
\<close>

theorem exact_recovery:
  assumes Y: "has_shape d k Y"
    and rng: "\<forall>y\<in>set Y. y \<noteq> replicate d 0 \<and> (\<forall>x\<in>set y. x = 0 \<or> lo \<le> x\<^sup>2)
                \<and> (1 + eps) ^ d * dotp y y \<le> hi"
    and lo: "0 < lo" "4 * lo \<le> (32 * eps)\<^sup>2"
    and eps: "0 < eps" "64 * eps \<le> 1"
    and tol: "tolerance prm \<noteq> NaN"
    and M: "precond_apply M = (\<lambda>B. B)"
    and L: "1 \<le> iter_lim prm"
    and lg: "\<not> (am_i_printing prm \<and> 2 \<le> log_level prm \<and> res_print prm = 0)"
  shows "\<exists>s u. factorizedCG eps b (identity_mat d) Y (zero_mat d k) 0 prm M = Inr (- 1, s)
     \<and> blkX s = Y \<and> iterations_done s = 1
     \<and> rho s = ColumnDot Y Y \<and> rhotmp s = ColumnDot Y Y
     \<and> (\<forall>x\<in>set (rhotmp s). lo \<le> x \<and> x \<le> hi)
     \<and> alpha s = replicate k 1
     \<and> blkR s = zero_mat d k \<and> ressqr s = replicate k 0
     \<and> tolerance (params (cg_env_of eps b (identity_mat d) Y 0 prm M)) = Val u
     \<and> (\<forall>i<k. 2 * lo \<le> u * nrmb s ! i)"
proof -
  let ?A = "identity_mat d" and ?X = "zero_mat d k"
  let ?e = "cg_env_of eps b ?A Y 0 prm M"
  let ?s0 = "cg_setup ?e Y ?X"
  let ?ones = "replicate k (1::real)"
  note ef = cg_env_of_fields[of eps b ?A Y 0 prm M]
  have A: "has_shape d d ?A" by (rule has_shape_identity)
  have X: "has_shape d k ?X" by (rule has_shape_zero_mat)
  have lA: "length ?A = d" using A by (simp add: has_shape_def)
  have lY: "length Y = k" using Y by (simp add: has_shape_def)
  have lX: "length ?X = k" by (simp add: zero_mat_def)
  have WY: "Width Y = k" using lY by (simp add: Width_def)
  have n: "dim_n ?e = d" and d: "dim_d ?e = d" and k: "dim_k ?e = k"
    by (simp_all add: ef Height_identity Width_identity WY)
  have ok: "inputs_ok ?A Y ?X"
    using A Y X by (simp add: inputs_ok_def Height_identity Width_identity WY)
  have Mok: "precond_ok ?e" by (rule precond_ok_id[OF M])
  have s0ok: "state_ok ?e ?s0" by (rule cg_setup_state_ok[OF ok refl])
  have Z0: "isprecond ?e \<longleftrightarrow> ownZ ?s0 \<noteq> None" by (rule cg_setup_ownZ)
  have TY: "Gemm TRANSPOSE 1 ?A Y 0 C = Y" if "has_shape d k C" for C
    using Gemm_TRANSPOSE_1_0[OF lA that lY] map_identity_tmat_vec[OF Y] by simp
  have NV: "Gemm NORMAL 1 ?A V 0 C = V" if "has_shape d k V" "has_shape d k C" for V C
    using Gemm_NORMAL_1_0[OF A that(2) has_shape_length[OF that(1)]]
      map_identity_mat_vec[OF that(1)] by simp
  have B0: "blkB ?s0 = Y" by (simp add: cg_setup_fields ef TY[OF X])
  have H0: "hermIntermed ?s0 = ?X" by (simp add: cg_setup_fields ef NV[OF X Y])
  have Q0: "blkQ ?s0 = Y" by (simp add: cg_setup_fields ef TY[OF X])
  have P0: "blkP ?s0 = ?X" by (simp add: cg_setup_fields)
  have X0: "blkX ?s0 = ?X" by (simp add: cg_setup_fields)
  have R0: "blkR ?s0 = Y"
  proof -
    have "blkR ?s0 = Axpy (- (lambda ?e * real (dim_n ?e))) ?X
       (Gemm TRANSPOSE (- 1) (matA ?e) (Gemm NORMAL 1 (matA ?e) ?X 0 Y) 1
          (Gemm TRANSPOSE 1 (matA ?e) Y 0 ?X))"
      by (rule cg_setup_fields(5))
    also have "\<dots> = Axpy 0 ?X (Gemm TRANSPOSE (- 1) ?A ?X 1 Y)"
      unfolding ef(1) ef(2) NV[OF X Y] TY[OF X] by simp
    also have "\<dots> = Y" unfolding identity_residual[OF Y] by (rule Axpy_0[OF X Y])
    finally show ?thesis .
  qed
  have q0: "ressqr ?s0 = ColumnDot Y Y" by (simp add: cg_setup_fields(9) R0)
  have n0: "nrmb ?s0 = ColumnNrm2 Y" by (simp add: cg_setup_fields(8) B0)
  have b0: "El_Zero (beta ?s0) = replicate k 0"
    by (simp add: El_Zero_def cg_setup_fields(15) n0 length_ColumnNrm2 lY)
  have pZ: "pass_Z ?e ?s0 = Y" by (simp add: pass_Z_def ef(6) M R0)
  have pr: "pass_rho ?e ?s0 = ColumnDot Y Y" by (simp add: pass_rho_def pZ R0 q0)
  have P1: "Axpy 1 Y (DiagonalScale (replicate k 0) ?X) = Y"
    by (rule zero_scale_add[OF X Y])
  have Q1: "Axpy (0 * real d) Y (Gemm TRANSPOSE 1 ?A (Gemm NORMAL 1 ?A Y 0 C) 0 C') = Y"
    if "has_shape d k C" "has_shape d k C'" for C C'
    by (simp add: NV[OF Y that(1)] TY[OF that(2)] Axpy_0[OF Y Y])
  have rg: "lo \<le> dotp y y \<and> dotp y y \<le> hi" if "y \<in> set Y" for y
    using rng that
    by (intro column_in_range[OF has_shape_set[OF Y that] _ _ _ eps(1)]) blast+
  have pos: "0 < dotp y y" if "y \<in> set Y" for y
    using rg[OF that] lo(1) by simp
  have nzd: "\<forall>x\<in>set (ColumnDot Y Y). x \<noteq> 0"
  proof
    fix x assume "x \<in> set (ColumnDot Y Y)"
    then obtain y where "y \<in> set Y" "x = dotp y y"
      by (auto simp: ColumnDot_def zip_same)
    with pos show "x \<noteq> 0" by fastforce
  qed
  have "\<exists>c s'. cg_iteration ?e 0 ?s0 = Inr (c, s')"
  proof (rule cg_iteration_returns[OF Z0, where bs = "replicate k 0" and P' = Y and Q' = Y])
    show "\<not> (log_lev2 ?e \<and> res_print (params ?e) = 0)" using lg by (simp add: ef)
    show "if (0::nat) = 0 then replicate k 0 = El_Zero (beta ?s0)
          else column_divide (pass_rho ?e ?s0) (rho0 ?s0) = Inr (replicate k 0)"
      by (simp add: b0)
    show "Y = Axpy 1 (pass_Z ?e ?s0) (DiagonalScale (replicate k 0) (blkP ?s0))"
      by (simp add: pZ P0 P1)
    show "Y = Axpy (lambda ?e * real (dim_n ?e)) Y
               (Gemm TRANSPOSE 1 (matA ?e) (Gemm NORMAL 1 (matA ?e) Y 0 (hermIntermed ?s0)) 0
                  (blkQ ?s0))"
      unfolding n H0 Q0 ef(1) ef(2) by (rule Q1[OF X Y, symmetric])
    show "\<forall>x\<in>set (ColumnDot Y Y). x \<noteq> 0" by (rule nzd)
  qed
  then obtain c s where run: "cg_iteration ?e 0 ?s0 = Inr (c, s)" by blast
  note f = cg_iteration_fields[OF run Z0]
  have sok: "state_ok ?e s" using run s0ok Mok by (rule cg_iteration_state_ok)
  have b1: "beta s = replicate k 0" using f(2) b0 by simp
  have Ps: "blkP s = Y" unfolding f(4) b1 pZ P0 by (rule P1)
  have Hs: "hermIntermed s = Y" unfolding f(5) Ps ef(1) H0 by (rule NV[OF Y X])
  have Qs: "blkQ s = Y"
    unfolding f(6) Ps Hs ef(1) ef(2) Q0 by (simp add: TY[OF Y] Axpy_0[OF Y Y])
  have ts: "rhotmp s = ColumnDot Y Y" unfolding f(7) Ps Qs ..
  have "column_divide (ColumnDot Y Y) (ColumnDot Y Y) = Inr (alpha s)"
    using f(8) unfolding pr ts .
  with column_divide_self[OF nzd] have al: "alpha s = ?ones"
    by (simp add: length_ColumnDot lY)
  have Xs: "blkX s = Y" unfolding f(10) al Ps X0 by (rule Axpy_cont_ones_zero[OF Y])
  have Rs: "blkR s = ?X" unfolding f(11) f(9) al Qs R0 by (rule Axpy_cont_mones_self[OF Y])
  have qs: "ressqr s = replicate k 0" unfolding f(13) Rs by (rule ColumnDot_zero)
  have ns: "nrmb s = ColumnNrm2 Y" unfolding f(14) n0 ..
  have rs: "rho s = ColumnDot Y Y" unfolding f(1) by (rule pr)
  have rgt: "\<forall>x\<in>set (rhotmp s). lo \<le> x \<and> x \<le> hi"
  proof
    fix x assume "x \<in> set (rhotmp s)"
    then obtain y where "y \<in> set Y" "x = dotp y y"
      by (auto simp: ts ColumnDot_def zip_same)
    with rg show "lo \<le> x \<and> x \<le> hi" by blast
  qed
  from clamp_tolerance_Val[OF eps tol] obtain u
    where u: "tolerance (params ?e) = Val u" and ul: "32 * eps \<le> u"
    unfolding ef by blast
  have thr: "2 * lo \<le> u * nrmb s ! i" if "i < k" for i
  proof -
    have "Y ! i \<in> set Y" using that lY by simp
    then have "lo \<le> dotp (Y ! i) (Y ! i)" using rg by blast
    with lo eps(1) ul have "2 * lo \<le> u * sqrt (dotp (Y ! i) (Y ! i))"
      by (rule threshold_in_range)
    then show ?thesis using that lY by (simp add: ns ColumnNrm2_def)
  qed
  have l: "length (ressqr s) = dim_k ?e" "length (nrmb s) = dim_k ?e"
    using sok by (auto simp: state_ok_def)
  have "\<forall>i<dim_k ?e. less_double (sqrt (ressqr s ! i))
           (double_times (tolerance (params ?e)) (nrmb s ! i))"
  proof (intro allI impI)
    fix i assume "i < dim_k ?e"
    then have i: "i < k" by (simp add: k)
    from thr[OF i] lo(1) have "0 < u * nrmb s ! i" by simp
    then show "less_double (sqrt (ressqr s ! i))
        (double_times (tolerance (params ?e)) (nrmb s ! i))"
      using i by (simp add: qs u)
  qed
  then have "converged_columns ?e s = dim_k ?e"
    using converged_columns_all[OF l] by blast
  then have c: c using f(18) by simp
  have lim: "int 0 < iter_lim (params ?e)" using L by (simp add: ef)
  have loop: "cg_loop ?e 0 ?s0 = Inr (- 1, s)"
    by (rule cg_loop_step(1)[OF run lim c])
  have res: "factorizedCG eps b ?A Y ?X 0 prm M = Inr (- 1, s)"
    using loop by (simp add: factorizedCG_def Let_def)
  have it: "iterations_done s = 1"
    by (simp add: iterations_done_def f(17) cg_setup_fields(16) setup_calls_def
        iteration_calls_def)
  from thr have thr': "\<forall>i<k. 2 * lo \<le> u * nrmb s ! i" by blast
  from res Xs it rs ts rgt al Rs qs u thr' show ?thesis by blast
qed

theorem exact_recovery_witness:
  "\<exists>s. factorizedCG (1 / 2 ^ 52) True (identity_mat 2) [[3, 4], [0, - 2]] (zero_mat 2 2) 0
     \<lparr>tolerance = Val (1 / 10 ^ 6), iter_lim = 50, am_i_printing = False,
      log_level = 0, res_print = 1\<rparr> outplace_id_precond_t = Inr (- 1, s)
     \<and> blkX s = [[3, 4], [0, - 2]] \<and> iterations_done s = 1
     \<and> rhotmp s = [25, 4] \<and> alpha s = [1, 1] \<and> ressqr s = [0, 0]"
proof -
  let ?p = "\<lparr>tolerance = Val (1 / 10 ^ 6), iter_lim = 50, am_i_printing = False,
      log_level = 0, res_print = 1\<rparr>"
  have Y: "has_shape 2 2 [[3, 4], [0, - 2]]" by (simp add: has_shape_def)
  have rng: "\<forall>y\<in>set [[3, 4], [0, - 2 :: real]]. y \<noteq> replicate 2 0
      \<and> (\<forall>x\<in>set y. x = 0 \<or> 1 / 2 ^ 1022 \<le> x\<^sup>2)
      \<and> (1 + 1 / 2 ^ 52) ^ 2 * dotp y y \<le> 2 ^ 1023"
    by (simp add: numeral_2_eq_2 dotp_def)
  have lo: "(0::real) < 1 / 2 ^ 1022" "4 * (1 / 2 ^ 1022) \<le> (32 * (1 / 2 ^ 52 :: real))\<^sup>2"
    by (simp_all add: power2_eq_square)
  have eps: "(0::real) < 1 / 2 ^ 52" "64 * (1 / 2 ^ 52) \<le> (1::real)" by simp_all
  have tol: "tolerance ?p \<noteq> NaN" by simp
  have L: "1 \<le> iter_lim ?p" by simp
  have lg: "\<not> (am_i_printing ?p \<and> 2 \<le> log_level ?p \<and> res_print ?p = 0)" by simp
  from exact_recovery[OF Y rng lo eps tol precond_apply_id L lg, of True]
  obtain s u where r: "factorizedCG (1 / 2 ^ 52) True (identity_mat 2) [[3, 4], [0, - 2]]
          (zero_mat 2 2) 0 ?p outplace_id_precond_t = Inr (- 1, s)"
      "blkX s = [[3, 4], [0, - 2]]" "iterations_done s = 1"
      "rhotmp s = ColumnDot [[3, 4], [0, - 2]] [[3, 4], [0, - 2]]"
      "alpha s = replicate 2 1" "ressqr s = replicate 2 0"
    by blast
  have "rhotmp s = [25, 4]" "alpha s = [1, 1]" "ressqr s = [0, 0]"
    using r(4-6) by (simp_all add: ColumnDot_def dotp_def numeral_2_eq_2)
  with r(1-3) show ?thesis by blast
qed

subsection \<open>C10: a right-hand side column of norm zero\<close>

text \<open>
  C10: when some column \<open>i\<close> has \<open>nrmb[i] = \<parallel>(A\<^sup>T Y)\<^sub>i\<parallel> = 0\<close>, that column never passes the
  strict test, so the call never returns the success code and always runs to the
  iteration limit and returns the code \<open>- 6\<close>. The first half holds (lemma
  \<open>zero_norm_column_no_success\<close>). The code misses the second half when the caller asks
  for the progress lines (\<^verbatim>\<open>am_i_printing\<close>, \<^verbatim>\<open>log_level \<ge> 2\<close>) with \<^verbatim>\<open>res_print = 0\<close>:
  line 156 takes the remainder \<^verbatim>\<open>itn % params.res_print\<close> in the first pass, and no
  status is returned. With \<open>A = (1)\<close>, \<open>Y = (0)\<close>, \<open>X\<^sub>0 = (1)\<close> and a limit of one pass:
  \<open>nrmb = [0]\<close>, and the call stops in the remainder by zero; the same call with
  \<^verbatim>\<open>res_print = 1\<close> makes its one pass, reaches a residual of exactly zero and returns
  \<open>- 6\<close>.
\<close>

theorem zero_norm_column_res_print_zero:
  "nrmb (cg_setup (cg_env_of (1 / 2 ^ 52) True [[1]] [[0]] 0
           \<lparr>tolerance = Val (1 / 10 ^ 6), iter_lim = 1, am_i_printing = True,
            log_level = 2, res_print = 0\<rparr> outplace_id_precond_t) [[0]] [[1]]) = [0]
   \<and> factorizedCG (1 / 2 ^ 52) True [[1]] [[0]] [[1]] 0
        \<lparr>tolerance = Val (1 / 10 ^ 6), iter_lim = 1, am_i_printing = True,
         log_level = 2, res_print = 0\<rparr> outplace_id_precond_t
      = Inl ZeroModulus
   \<and> (\<exists>s. factorizedCG (1 / 2 ^ 52) True [[1]] [[0]] [[1]] 0
        \<lparr>tolerance = Val (1 / 10 ^ 6), iter_lim = 1, am_i_printing = True,
         log_level = 2, res_print = 1\<rparr> outplace_id_precond_t
      = Inr (- 6, s)
      \<and> blkX s = [[0]] \<and> blkR s = [[0]] \<and> ressqr s = [0] \<and> nrmb s = [0])"
  by (simp add: run_defs cg_loop.simps[of _ 0] cg_loop.simps[of _ "Suc 0"])

end
